theory Spec2Isabelle
  imports Main "HOL-Library.Sublist" "HOL-Library.AList"
begin

section \<open>Strings\<close>

text \<open>
  A string is a list of code units; the model covers the code units below 256.
  \<open>trim\<close> removes the white space and line terminators of the language at both ends,
  \<open>toLowerCase\<close> maps the upper-case letters of that range, \<open>stringIncludes\<close> is
  \<^verbatim>\<open>a.includes(b)\<close>: \<open>b\<close> occurs in \<open>a\<close> as a contiguous run.
\<close>

definition isWhiteSpace :: "char \<Rightarrow> bool" where
  "isWhiteSpace c \<longleftrightarrow>
     c \<in> set [CHR 0x09, CHR 0x0A, CHR 0x0B, CHR 0x0C, CHR 0x0D, CHR 0x20, CHR 0xA0]"

definition trim :: "string \<Rightarrow> string" where
  "trim s = rev (dropWhile isWhiteSpace (rev (dropWhile isWhiteSpace s)))"

definition isUpper :: "char \<Rightarrow> bool" where
  "isUpper c \<longleftrightarrow>
     (let n = (of_char c :: nat)
      in (65 \<le> n \<and> n \<le> 90) \<or> (192 \<le> n \<and> n \<le> 214) \<or> (216 \<le> n \<and> n \<le> 222))"

definition toLowerChar :: "char \<Rightarrow> char" where
  "toLowerChar c = (if isUpper c then char_of ((of_char c :: nat) + 32) else c)"

definition toLowerCase :: "string \<Rightarrow> string" where
  "toLowerCase s = map toLowerChar s"

fun stringIncludes :: "string \<Rightarrow> string \<Rightarrow> bool" where
  "stringIncludes [] b = (b = [])"
| "stringIncludes (x # xs) b = (prefix b (x # xs) \<or> stringIncludes xs b)"

definition isDigit :: "char \<Rightarrow> bool" where
  "isDigit c \<longleftrightarrow> c \<in> set ''0123456789''"

text \<open>The character class \<^verbatim>\<open>[^0-9+]\<close>: everything that is neither a digit nor a plus sign.\<close>

definition notDigitOrPlus :: "char \<Rightarrow> bool" where
  "notDigitOrPlus c \<longleftrightarrow> \<not> (isDigit c \<or> c = CHR ''+'')"

text \<open>\<^verbatim>\<open>s.replace(/[cls]/g, r)\<close> for a one-character class: every match becomes \<open>r\<close>.\<close>

fun replaceAll :: "(char \<Rightarrow> bool) \<Rightarrow> string \<Rightarrow> string \<Rightarrow> string" where
  "replaceAll cls r [] = []"
| "replaceAll cls r (c # cs) =
     (if cls c then r @ replaceAll cls r cs else c # replaceAll cls r cs)"

text \<open>\<^verbatim>\<open>phoneNumber.replace(/[^0-9+]/g, '')\<close>, lines 181 and 236.\<close>

definition normalizePhone :: "string \<Rightarrow> string" where
  "normalizePhone s = replaceAll notDigitOrPlus [] s"

text \<open>
  The normalisation as the specification words it: digits are kept, and a plus sign is
  kept only where it leads the string.
\<close>

definition normalizeLeadingPlus :: "string \<Rightarrow> string" where
  "normalizeLeadingPlus s =
     (case s of
        [] \<Rightarrow> []
      | c # cs \<Rightarrow> if c = CHR ''+'' then c # filter isDigit cs else filter isDigit (c # cs))"

section \<open>Values handed back by the automation bridge\<close>

text \<open>
  The result of \<^verbatim>\<open>runAppleScript\<close> is used at type \<^verbatim>\<open>any\<close>. The model covers absent
  values, booleans, text, lists and records (own properties in order).
\<close>

datatype jsval =
    JUndefined
  | JNull
  | JBool bool
  | JStr string
  | JArr "jsval list"
  | JObj "(string \<times> jsval) list"

text \<open>
  What a failed call throws: an \<^verbatim>\<open>Error\<close> with the value of its \<^verbatim>\<open>message\<close>
  property, a \<^verbatim>\<open>TypeError\<close> raised by the language itself (its message is a
  string), or any other value.
\<close>

datatype exn = BridgeError jsval | TypeError | Thrown jsval

fun truthy :: "jsval \<Rightarrow> bool" where
  "truthy JUndefined = False"
| "truthy JNull = False"
| "truthy (JBool b) = b"
| "truthy (JStr s) = (s \<noteq> [])"
| "truthy (JArr xs) = True"
| "truthy (JObj fs) = True"

text \<open>
  \<^verbatim>\<open>v.name\<close>, \<^verbatim>\<open>v.phones\<close> on a value that is not null or undefined: a record gives its
  own property, everything else (and a record without it) gives undefined, since no
  prototype of these values has a property of either name.
\<close>

fun getProp :: "jsval \<Rightarrow> string \<Rightarrow> jsval" where
  "getProp (JObj fs) k = (case map_of fs k of Some v \<Rightarrow> v | None \<Rightarrow> JUndefined)"
| "getProp v k = JUndefined"

text \<open>
  Conversion of a value to a property key (a string). A list joins its elements with
  commas, absent elements giving the empty string; a record gives \<^verbatim>\<open>[object Object]\<close>
  unless it carries an own \<^verbatim>\<open>toString\<close>, which cannot be called and makes the
  conversion throw.
\<close>

fun toPropertyKey :: "jsval \<Rightarrow> exn + string"
  and joinElements :: "jsval list \<Rightarrow> exn + string" where
  "toPropertyKey JUndefined = Inr ''undefined''"
| "toPropertyKey JNull = Inr ''null''"
| "toPropertyKey (JBool b) = Inr (if b then ''true'' else ''false'')"
| "toPropertyKey (JStr s) = Inr s"
| "toPropertyKey (JArr xs) = joinElements xs"
| "toPropertyKey (JObj fs) =
     (if ''toString'' \<in> fst ` set fs then Inl TypeError else Inr ''[object Object]'')"
| "joinElements [] = Inr []"
| "joinElements (x # xs) =
     (case (if x = JUndefined \<or> x = JNull then Inr [] else toPropertyKey x) of
        Inl e \<Rightarrow> Inl e
      | Inr a \<Rightarrow>
          (if xs = [] then Inr a
           else case joinElements xs of Inl e \<Rightarrow> Inl e | Inr b \<Rightarrow> Inr (a @ '','' @ b)))"

text \<open>\<^verbatim>\<open>Array.isArray(result) ? result : (result ? [result] : [])\<close>, lines 82 and 152.\<close>

fun toArray :: "jsval \<Rightarrow> jsval list" where
  "toArray (JArr xs) = xs"
| "toArray v = (if truthy v then [v] else [])"

section \<open>The directory snapshot: an object with string keys\<close>

text \<open>
  The object \<^verbatim>\<open>phoneNumbers\<close> is the list of its own properties in the order of their
  creation. Assigning to an existing key replaces the value in place, assigning to a new
  key appends; assigning to \<^verbatim>\<open>__proto__\<close> sets the prototype and creates no property.
\<close>

type_synonym snapshot = "(string \<times> jsval list) list"

definition setProperty :: "string \<Rightarrow> jsval list \<Rightarrow> snapshot \<Rightarrow> snapshot" where
  "setProperty k v ps = (if k = ''__proto__'' then ps else AList.update k v ps)"

fun digitsValue :: "string \<Rightarrow> nat \<Rightarrow> nat" where
  "digitsValue [] acc = acc"
| "digitsValue (c # cs) acc = digitsValue cs (10 * acc + ((of_char c :: nat) - 48))"

text \<open>An array index: the canonical decimal string of an integer from 0 to 2^32 - 2.\<close>

definition isArrayIndex :: "string \<Rightarrow> bool" where
  "isArrayIndex s \<longleftrightarrow>
     s \<noteq> [] \<and> list_all isDigit s \<and> (s = ''0'' \<or> hd s \<noteq> CHR ''0'') \<and>
     digitsValue s 0 < 4294967295"

text \<open>
  \<^verbatim>\<open>Object.entries\<close> and \<^verbatim>\<open>Object.keys\<close>: the keys that are array indices first, in
  ascending numeric order, then the other keys in the order of their creation.
\<close>

definition objectEntries :: "snapshot \<Rightarrow> (string \<times> jsval list) list" where
  "objectEntries ps =
     sort_key (\<lambda>p. digitsValue (fst p) 0) (filter (\<lambda>p. isArrayIndex (fst p)) ps) @
     filter (\<lambda>p. \<not> isArrayIndex (fst p)) ps"

definition objectKeys :: "snapshot \<Rightarrow> string list" where
  "objectKeys ps = map fst (objectEntries ps)"

text \<open>\<^verbatim>\<open>allNumbers[key]\<close>: the own property, or undefined.\<close>

definition getOwn :: "snapshot \<Rightarrow> string \<Rightarrow> jsval" where
  "getOwn ps k = (case map_of ps k of Some v \<Rightarrow> JArr v | None \<Rightarrow> JUndefined)"

section \<open>The bridge and the world\<close>

text \<open>
  The four scripts the module sends. The name and phone queries carry the text
  interpolated into them.
\<close>

datatype script = AccessProbe | BulkScript | NameScript string | PhoneScript string

datatype log_entry =
    CannotAccess exn
  | ErrorGettingAll exn
  | ErrorFinding exn
  | ErrorFindingByPhone exn

text \<open>
  The world records the scripts issued so far and the lines written by
  \<^verbatim>\<open>console.error\<close>. A bridge answers a script, given the scripts issued before it,
  with a value or with an exception.
\<close>

record world =
  issued :: "script list"
  console :: "log_entry list"

type_synonym bridge = "script list \<Rightarrow> script \<Rightarrow> exn + jsval"

definition runAppleScript :: "bridge \<Rightarrow> script \<Rightarrow> world \<Rightarrow> (exn + jsval) \<times> world" where
  "runAppleScript b s w = (b (issued w) s, w\<lparr>issued := issued w @ [s]\<rparr>)"

definition consoleError :: "log_entry \<Rightarrow> world \<Rightarrow> world" where
  "consoleError l w = w\<lparr>console := console w @ [l]\<rparr>"

text \<open>
  The body of each catch handler (lines 22, 93, 165, 251) prints the template
  \<^verbatim>\<open>${error instanceof Error ? error.message : String(error)}\<close>. The message of an
  error, and any other thrown value, is converted to a string as a property key is
  converted. When the conversion throws, nothing is printed and the handler itself
  throws.
\<close>

definition logError :: "(exn \<Rightarrow> log_entry) \<Rightarrow> exn \<Rightarrow> world \<Rightarrow> (exn + unit) \<times> world" where
  "logError entry error w =
     (case error of
        BridgeError message \<Rightarrow>
          (case toPropertyKey message of
             Inl e \<Rightarrow> (Inl e, w)
           | Inr text \<Rightarrow> (Inr (), consoleError (entry error) w))
      | TypeError \<Rightarrow> (Inr (), consoleError (entry error) w)
      | Thrown v \<Rightarrow>
          (case toPropertyKey v of
             Inl e \<Rightarrow> (Inl e, w)
           | Inr text \<Rightarrow> (Inr (), consoleError (entry error) w)))"

section \<open>The module\<close>

definition MAX_CONTACTS :: nat where
  "MAX_CONTACTS = 100"

definition checkContactsAccess :: "bridge \<Rightarrow> world \<Rightarrow> (exn + bool) \<times> world" where
  "checkContactsAccess b w =
     (case runAppleScript b AccessProbe w of
        (Inr r, w1) \<Rightarrow> (Inr True, w1)
      | (Inl e, w1) \<Rightarrow>
          (case logError CannotAccess e w1 of
             (Inl e', w2) \<Rightarrow> (Inl e', w2)
           | (Inr u, w2) \<Rightarrow> (Inr False, w2)))"

text \<open>The guard \<^verbatim>\<open>contact && contact.name && contact.phones\<close> of line 86.\<close>

definition hasNameAndPhones :: "jsval \<Rightarrow> bool" where
  "hasNameAndPhones contact \<longleftrightarrow>
     truthy contact \<and> truthy (getProp contact ''name'') \<and> truthy (getProp contact ''phones'')"

text \<open>
  \<^verbatim>\<open>Array.isArray(contact.phones) ? contact.phones : [contact.phones]\<close>, line 87.
\<close>

definition phonesValue :: "jsval \<Rightarrow> jsval list" where
  "phonesValue contact =
     (case getProp contact ''phones'' of
        JArr ps \<Rightarrow> ps
      | v \<Rightarrow> [v])"

text \<open>The loop of lines 85 to 89 over \<^verbatim>\<open>resultArray\<close>, threading \<^verbatim>\<open>phoneNumbers\<close>.\<close>

fun addContacts :: "jsval list \<Rightarrow> snapshot \<Rightarrow> exn + snapshot" where
  "addContacts [] phoneNumbers = Inr phoneNumbers"
| "addContacts (contact # rest) phoneNumbers =
     (if hasNameAndPhones contact then
        (case toPropertyKey (getProp contact ''name'') of
           Inl e \<Rightarrow> Inl e
         | Inr k \<Rightarrow> addContacts rest (setProperty k (phonesValue contact) phoneNumbers))
      else addContacts rest phoneNumbers)"

definition convertContacts :: "jsval \<Rightarrow> exn + snapshot" where
  "convertContacts result = addContacts (toArray result) []"

definition getAllNumbers_body :: "bridge \<Rightarrow> world \<Rightarrow> (exn + snapshot) \<times> world" where
  "getAllNumbers_body b w =
     (case checkContactsAccess b w of
        (Inl e, w1) \<Rightarrow> (Inl e, w1)
      | (Inr False, w1) \<Rightarrow> (Inr [], w1)
      | (Inr True, w1) \<Rightarrow>
          (case runAppleScript b BulkScript w1 of
             (Inl e, w2) \<Rightarrow> (Inl e, w2)
           | (Inr result, w2) \<Rightarrow> (convertContacts result, w2)))"

definition getAllNumbers :: "bridge \<Rightarrow> world \<Rightarrow> (exn + snapshot) \<times> world" where
  "getAllNumbers b w =
     (case getAllNumbers_body b w of
        (Inl e, w1) \<Rightarrow>
          (case logError ErrorGettingAll e w1 of
             (Inl e', w2) \<Rightarrow> (Inl e', w2)
           | (Inr u, w2) \<Rightarrow> (Inr [], w2))
      | (Inr r, w1) \<Rightarrow> (Inr r, w1))"

text \<open>\<^verbatim>\<open>resultArray.filter(phone => phone && phone.trim() !== '')\<close>, line 163.\<close>

fun filterPhones :: "jsval list \<Rightarrow> exn + jsval list" where
  "filterPhones [] = Inr []"
| "filterPhones (phone # rest) =
     (if \<not> truthy phone then filterPhones rest
      else
        (case phone of
           JStr s \<Rightarrow>
             (case filterPhones rest of
                Inl e \<Rightarrow> Inl e
              | Inr r \<Rightarrow> Inr (if trim s \<noteq> [] then phone # r else r))
         | _ \<Rightarrow> Inl TypeError))"

definition findNumber_body :: "bridge \<Rightarrow> string \<Rightarrow> world \<Rightarrow> (exn + jsval) \<times> world" where
  "findNumber_body b name w =
     (case checkContactsAccess b w of
        (Inl e, w1) \<Rightarrow> (Inl e, w1)
      | (Inr False, w1) \<Rightarrow> (Inr (JArr []), w1)
      | (Inr True, w1) \<Rightarrow>
          if name = [] \<or> trim name = [] then (Inr (JArr []), w1)
          else
            let searchName = toLowerCase name in
            (case runAppleScript b (NameScript searchName) w1 of
               (Inl e, w2) \<Rightarrow> (Inl e, w2)
             | (Inr result, w2) \<Rightarrow>
                 let resultArray = toArray result in
                 if length resultArray = 0 then
                   (case getAllNumbers b w2 of
                      (Inl e, w3) \<Rightarrow> (Inl e, w3)
                    | (Inr allNumbers, w3) \<Rightarrow>
                        (case find (\<lambda>personName. stringIncludes (toLowerCase personName) searchName)
                                (objectKeys allNumbers) of
                           None \<Rightarrow> (Inr (JArr []), w3)
                         | Some closestMatch \<Rightarrow>
                             if closestMatch \<noteq> [] then
                               (Inr (getOwn allNumbers closestMatch), w3)
                             else (Inr (JArr []), w3)))
                 else
                   (case filterPhones resultArray of
                      Inl e \<Rightarrow> (Inl e, w2)
                    | Inr phones \<Rightarrow> (Inr (JArr phones), w2))))"

text \<open>
  The value is what the promise resolves to: a list of phones, or undefined should
  \<^verbatim>\<open>allNumbers[closestMatch]\<close> miss.
\<close>

definition findNumber :: "bridge \<Rightarrow> string \<Rightarrow> world \<Rightarrow> (exn + jsval) \<times> world" where
  "findNumber b name w =
     (case findNumber_body b name w of
        (Inl e, w1) \<Rightarrow>
          (case logError ErrorFinding e w1 of
             (Inl e', w2) \<Rightarrow> (Inl e', w2)
           | (Inr u, w2) \<Rightarrow> (Inr (JArr []), w2))
      | (Inr r, w1) \<Rightarrow> (Inr r, w1))"

text \<open>\<^verbatim>\<open>numbers.map(num => num.replace(/[^0-9+]/g, ''))\<close>, line 236.\<close>

fun normalizeNumbers :: "jsval list \<Rightarrow> exn + string list" where
  "normalizeNumbers [] = Inr []"
| "normalizeNumbers (num # rest) =
     (case num of
        JStr s \<Rightarrow>
          (case normalizeNumbers rest of
             Inl e \<Rightarrow> Inl e
           | Inr r \<Rightarrow> Inr (normalizePhone s # r))
      | _ \<Rightarrow> Inl TypeError)"

text \<open>The six rules of lines 238 to 243.\<close>

definition phoneMatches :: "string \<Rightarrow> string \<Rightarrow> bool" where
  "phoneMatches searchNumber num \<longleftrightarrow>
     num = searchNumber \<or>
     num = ''+'' @ searchNumber \<or>
     num = ''+1'' @ searchNumber \<or>
     ''+1'' @ num = searchNumber \<or>
     stringIncludes searchNumber num \<or>
     stringIncludes num searchNumber"

text \<open>The loop of lines 235 to 247 over \<^verbatim>\<open>Object.entries(allContacts)\<close>.\<close>

fun scanContacts :: "string \<Rightarrow> (string \<times> jsval list) list \<Rightarrow> exn + string option" where
  "scanContacts searchNumber [] = Inr None"
| "scanContacts searchNumber ((contactName, numbers) # rest) =
     (case normalizeNumbers numbers of
        Inl e \<Rightarrow> Inl e
      | Inr normalizedNumbers \<Rightarrow>
          if list_ex (phoneMatches searchNumber) normalizedNumbers then Inr (Some contactName)
          else scanContacts searchNumber rest)"

text \<open>
  \<^verbatim>\<open>result && result.trim() !== ''\<close>, line 228: \<open>Inr (Some s)\<close> when the test holds (then
  \<open>result\<close> is the string \<open>s\<close>), \<open>Inr None\<close> when it fails, and an exception when
  \<open>result\<close> is truthy and has no \<^verbatim>\<open>trim\<close> to call.
\<close>

fun nonBlankResult :: "jsval \<Rightarrow> exn + string option" where
  "nonBlankResult (JStr s) = Inr (if s \<noteq> [] \<and> trim s \<noteq> [] then Some s else None)"
| "nonBlankResult v = (if truthy v then Inl TypeError else Inr None)"

definition findContactByPhone_body ::
  "bridge \<Rightarrow> string \<Rightarrow> world \<Rightarrow> (exn + string option) \<times> world" where
  "findContactByPhone_body b phoneNumber w =
     (case checkContactsAccess b w of
        (Inl e, w1) \<Rightarrow> (Inl e, w1)
      | (Inr False, w1) \<Rightarrow> (Inr None, w1)
      | (Inr True, w1) \<Rightarrow>
          if phoneNumber = [] \<or> trim phoneNumber = [] then (Inr None, w1)
          else
            let searchNumber = normalizePhone phoneNumber in
            (case runAppleScript b (PhoneScript searchNumber) w1 of
               (Inl e, w2) \<Rightarrow> (Inl e, w2)
             | (Inr result, w2) \<Rightarrow>
                 (case nonBlankResult result of
                    Inl e \<Rightarrow> (Inl e, w2)
                  | Inr (Some s) \<Rightarrow> (Inr (Some s), w2)
                  | Inr None \<Rightarrow>
                      (case getAllNumbers b w2 of
                         (Inl e, w3) \<Rightarrow> (Inl e, w3)
                       | (Inr allContacts, w3) \<Rightarrow>
                           (scanContacts searchNumber (objectEntries allContacts), w3)))))"

definition findContactByPhone ::
  "bridge \<Rightarrow> string \<Rightarrow> world \<Rightarrow> (exn + string option) \<times> world" where
  "findContactByPhone b phoneNumber w =
     (case findContactByPhone_body b phoneNumber w of
        (Inl e, w1) \<Rightarrow>
          (case logError ErrorFindingByPhone e w1 of
             (Inl e', w2) \<Rightarrow> (Inl e', w2)
           | (Inr u, w2) \<Rightarrow> (Inr None, w2))
      | (Inr r, w1) \<Rightarrow> (Inr r, w1))"

section \<open>The enumeration script\<close>

text \<open>
  The script of lines 33 to 77 runs in the address book. Reading a property there may
  raise an error, which the enclosing \<^verbatim>\<open>try\<close> swallows: a person is its name and its
  phones, each phone a value, any of them possibly failing to be read.
\<close>

datatype 'a attempt = Fails | Gives 'a

datatype person = Person (nameOf: "string attempt") (phonesOf: "string attempt list attempt")

type_synonym contactInfo = "string \<times> string list"

text \<open>The inner \<^verbatim>\<open>repeat with phoneItem in phonesList\<close>, threading \<^verbatim>\<open>personPhones\<close>.\<close>

fun collectPhones :: "string attempt list \<Rightarrow> string list \<Rightarrow> string list" where
  "collectPhones [] personPhones = personPhones"
| "collectPhones (Fails # rest) personPhones = collectPhones rest personPhones"
| "collectPhones (Gives phoneValue # rest) personPhones =
     collectPhones rest
       (if phoneValue \<noteq> [] then personPhones @ [phoneValue] else personPhones)"

text \<open>
  The outer \<^verbatim>\<open>repeat with i from 1 to (count of allPeople)\<close>, threading
  \<^verbatim>\<open>contactList\<close> and \<^verbatim>\<open>contactCount\<close>.
\<close>

fun bulkLoop :: "person list \<Rightarrow> contactInfo list \<Rightarrow> nat \<Rightarrow> contactInfo list" where
  "bulkLoop [] contactList contactCount = contactList"
| "bulkLoop (currentPerson # rest) contactList contactCount =
     (if contactCount \<ge> MAX_CONTACTS then contactList
      else
        (case nameOf currentPerson of
           Fails \<Rightarrow> bulkLoop rest contactList contactCount
         | Gives personName \<Rightarrow>
             let personPhones =
               (case phonesOf currentPerson of
                  Fails \<Rightarrow> []
                | Gives phonesList \<Rightarrow> collectPhones phonesList [])
             in
               if length personPhones > 0
               then bulkLoop rest (contactList @ [(personName, personPhones)]) (contactCount + 1)
               else bulkLoop rest contactList contactCount))"

definition bulkScript :: "person list \<Rightarrow> contactInfo list" where
  "bulkScript allPeople = bulkLoop allPeople [] 0"

text \<open>
  Modelled from the spec: the bridge library that carries the script's result into the
  module is outside the repository. The phones of a record arrive as a list of strings,
  or as a bare string when there is one.
\<close>

fun marshalsPhones :: "string list \<Rightarrow> jsval \<Rightarrow> bool" where
  "marshalsPhones ps (JArr vs) = (vs = map JStr ps)"
| "marshalsPhones ps (JStr p) = (ps = [p])"
| "marshalsPhones ps v = False"

text \<open>
  Modelled from the spec: a contact of the script's result arrives as a record with its
  name under \<^verbatim>\<open>name\<close> and its phones under \<^verbatim>\<open>phones\<close>.
\<close>

fun marshalsContact :: "contactInfo \<Rightarrow> jsval \<Rightarrow> bool" where
  "marshalsContact (n, ps) (JObj fs) =
     (map_of fs ''name'' = Some (JStr n) \<and>
      (case map_of fs ''phones'' of Some v \<Rightarrow> marshalsPhones ps v | None \<Rightarrow> False))"
| "marshalsContact c v = False"

text \<open>
  Modelled from the spec: the result of the script arrives as a list of records, as a
  single record, or empty/absent.
\<close>

fun marshalsResult :: "contactInfo list \<Rightarrow> jsval \<Rightarrow> bool" where
  "marshalsResult cs (JArr vs) = list_all2 marshalsContact cs vs"
| "marshalsResult cs (JObj fs) = (case cs of [c] \<Rightarrow> marshalsContact c (JObj fs) | _ \<Rightarrow> False)"
| "marshalsResult cs v = (cs = [] \<and> \<not> truthy v)"

section \<open>Example bridges\<close>

definition emptyWorld :: world where
  "emptyWorld = \<lparr>issued = [], console = []\<rparr>"

text \<open>A bridge that grants access and answers with fixed values.\<close>

definition cannedBridge :: "jsval \<Rightarrow> jsval \<Rightarrow> bridge" where
  "cannedBridge targeted bulk h s =
     (case s of
        AccessProbe \<Rightarrow> Inr (JStr ''Contacts'')
      | BulkScript \<Rightarrow> Inr bulk
      | NameScript q \<Rightarrow> Inr targeted
      | PhoneScript q \<Rightarrow> Inr targeted)"

text \<open>A bridge that refuses every script, and one that refuses all but the probe.\<close>

definition deniedBridge :: bridge where
  "deniedBridge h s =
     Inl (BridgeError (JStr ''Not authorised to send Apple events to Contacts.''))"

definition brokenBridge :: bridge where
  "brokenBridge h s =
     (case s of
        AccessProbe \<Rightarrow> Inr (JStr ''Contacts'')
      | _ \<Rightarrow> Inl (BridgeError (JStr ''execution error'')))"


definition contactRecord :: "string \<Rightarrow> string list \<Rightarrow> jsval" where
  "contactRecord n ps = JObj [(''name'', JStr n), (''phones'', JArr (map JStr ps))]"

text \<open>
  A bridge that grants access, runs the enumeration script against an address book and
  hands back its list of records, and finds nothing on a targeted query.
\<close>

definition scriptBridge :: "person list \<Rightarrow> bridge" where
  "scriptBridge allPeople h s =
     (case s of
        AccessProbe \<Rightarrow> Inr (JStr ''Contacts'')
      | BulkScript \<Rightarrow> Inr (JArr (map (\<lambda>(n, ps). contactRecord n ps) (bulkScript allPeople)))
      | NameScript q \<Rightarrow> Inr (JArr [])
      | PhoneScript q \<Rightarrow> Inr (JStr []))"

text \<open>
  An address book: Ann has one phone, one that cannot be read and an empty one; Bob's
  phones cannot be read; the third person's name cannot be read; Cy has no usable phone;
  Di has two phones.
\<close>

definition sampleBook :: "person list" where
  "sampleBook =
     [Person (Gives ''Ann'') (Gives [Gives ''555-0100'', Fails, Gives []]),
      Person (Gives ''Bob'') Fails,
      Person Fails (Gives [Gives ''555-0101'']),
      Person (Gives ''Cy'') (Gives [Gives [], Fails]),
      Person (Gives ''Di'') (Gives [Gives ''555-0102'', Gives ''555-0103''])]"

section \<open>Notions used in the statements\<close>

text \<open>
  A record of the bridge result is stored under the key \<open>n\<close> when it passes the guard
  of line 86 and its name converts to \<open>n\<close>.
\<close>

definition storedUnder :: "string \<Rightarrow> jsval \<Rightarrow> bool" where
  "storedUnder n contact \<longleftrightarrow>
     hasNameAndPhones contact \<and> toPropertyKey (getProp contact ''name'') = Inr n"

text \<open>
  What the enumeration script promises of its result: every contact has a phone, and no
  phone is the empty string.
\<close>

definition wellFormed :: "contactInfo list \<Rightarrow> bool" where
  "wellFormed cs \<longleftrightarrow> (\<forall>c\<in>set cs. snd c \<noteq> [] \<and> [] \<notin> set (snd c))"

text \<open>
  The matching rules of the reverse search as the specification lists them, "contains"
  being the contiguous-sublist relation, and the contacts of a snapshot they select.
\<close>

definition matchesSomeRule :: "string \<Rightarrow> string \<Rightarrow> bool" where
  "matchesSomeRule searchNumber num \<longleftrightarrow>
     num = searchNumber \<or>
     num = ''+'' @ searchNumber \<or>
     num = ''+1'' @ searchNumber \<or>
     ''+1'' @ num = searchNumber \<or>
     sublist num searchNumber \<or>
     sublist searchNumber num"

fun stringsOf :: "jsval list \<Rightarrow> string list" where
  "stringsOf [] = []"
| "stringsOf (JStr s # ps) = s # stringsOf ps"
| "stringsOf (p # ps) = stringsOf ps"

definition contactMatches :: "string \<Rightarrow> string \<times> jsval list \<Rightarrow> bool" where
  "contactMatches searchNumber e \<longleftrightarrow>
     (\<exists>num\<in>set (map normalizePhone (stringsOf (snd e))). matchesSomeRule searchNumber num)"

text \<open>
  The key order of a snapshot, said without the code's own tests. The decimal numeral of
  a number; the array index a key denotes, when the key is the decimal numeral of an
  integer from 0 to 2^32 - 2; and the entries of a snapshot with the keys that denote an
  array index first, by ascending index, followed by the other entries in the order in
  which the snapshot acquired them.
\<close>

fun decimal :: "nat \<Rightarrow> string" where
  "decimal n =
     (if n < 10 then [char_of (48 + n)]
      else decimal (n div 10) @ [char_of (48 + n mod 10)])"

declare decimal.simps [simp del]

definition indexOfKey :: "string \<Rightarrow> nat option" where
  "indexOfKey k =
     (let n = digitsValue k 0
      in if n < 4294967295 \<and> decimal n = k then Some n else None)"

definition keyOrder :: "snapshot \<Rightarrow> (string \<times> jsval list) list" where
  "keyOrder m =
     sort_key (\<lambda>e. case indexOfKey (fst e) of Some n \<Rightarrow> n | None \<Rightarrow> 0)
       (filter (\<lambda>e. indexOfKey (fst e) \<noteq> None) m) @
     filter (\<lambda>e. indexOfKey (fst e) = None) m"

text \<open>
  The keys under which the records of a bridge result are stored, in the order of the
  result, and the keys of a list in the order of their first appearance, given the set
  of keys seen before.
\<close>

fun storedKeys :: "jsval list \<Rightarrow> string list" where
  "storedKeys [] = []"
| "storedKeys (contact # rest) =
     (if hasNameAndPhones contact then
        (case toPropertyKey (getProp contact ''name'') of
           Inl e \<Rightarrow> storedKeys rest
         | Inr k \<Rightarrow> if k = ''__proto__'' then storedKeys rest else k # storedKeys rest)
      else storedKeys rest)"

fun firstSeen :: "string set \<Rightarrow> string list \<Rightarrow> string list" where
  "firstSeen seen [] = []"
| "firstSeen seen (k # ks) =
     (if k \<in> seen then firstSeen seen ks else k # firstSeen (insert k seen) ks)"

text \<open>An exception that a catch handler can print.\<close>

definition printable :: "exn \<Rightarrow> bool" where
  "printable e \<longleftrightarrow>
     (case e of
        BridgeError message \<Rightarrow> (case toPropertyKey message of Inl e' \<Rightarrow> False | Inr s \<Rightarrow> True)
      | TypeError \<Rightarrow> True
      | Thrown v \<Rightarrow> (case toPropertyKey v of Inl e' \<Rightarrow> False | Inr s \<Rightarrow> True))"

text \<open>A snapshot all of whose phones are strings.\<close>

definition textOnly :: "snapshot \<Rightarrow> bool" where
  "textOnly m \<longleftrightarrow> (\<forall>e\<in>set m. \<forall>p\<in>set (snd e). \<exists>s. p = JStr s)"

text \<open>A targeted phone query that found nothing: line 228 fails without throwing.\<close>

definition yieldsNothing :: "jsval \<Rightarrow> bool" where
  "yieldsNothing result \<longleftrightarrow> \<not> truthy result \<or> (\<exists>s. result = JStr s \<and> trim s = [])"

section \<open>Phone normalisation\<close>

lemma replaceAll_empty: "replaceAll cls [] s = filter (\<lambda>c. \<not> cls c) s"
  by (induction s) simp_all

lemma normalizePhone_filter:
  "normalizePhone s = filter (\<lambda>c. isDigit c \<or> c = CHR ''+'') s"
  by (simp add: normalizePhone_def replaceAll_empty notDigitOrPlus_def)

lemma filter_no_plus:
  "CHR ''+'' \<notin> set cs \<Longrightarrow> filter (\<lambda>c. isDigit c \<or> c = CHR ''+'') cs = filter isDigit cs"
  by (induction cs) auto

lemma plus_not_digit: "\<not> isDigit CHR ''+''"
  by (simp add: isDigit_def)

text \<open>
  Claim C3, as amended. The normalisation of \<open>findContactByPhone\<close> keeps exactly the
  digits and the plus signs of its input, in their order: every plus sign stays, wherever
  it stands. It agrees with the normalisation that keeps only a leading plus sign on
  every input that has no plus sign after its first character.
\<close>

theorem normalizePhone_keeps_every_plus:
  "normalizePhone s = filter (\<lambda>c. isDigit c \<or> c = CHR ''+'') s \<and>
   (CHR ''+'' \<notin> set (tl s) \<longrightarrow> normalizePhone s = normalizeLeadingPlus s)"
proof (cases s)
  case Nil
  then show ?thesis by (simp add: normalizePhone_filter normalizeLeadingPlus_def)
next
  case (Cons c cs)
  then show ?thesis
    by (simp add: normalizePhone_filter normalizeLeadingPlus_def filter_no_plus plus_not_digit)
qed

theorem normalizePhone_keeps_every_plus_witness:
  "CHR ''+'' \<notin> set (tl ''+1 (555) 123-4567'') \<and>
   normalizePhone ''+1 (555) 123-4567'' = ''+15551234567'' \<and>
   normalizeLeadingPlus ''+1 (555) 123-4567'' = ''+15551234567''"
  using normalizePhone_keeps_every_plus [of "''+1 (555) 123-4567''"]
  by (simp add: isDigit_def normalizeLeadingPlus_def)

text \<open>
  Claim C3 as stated fails: on \<^verbatim>\<open>1+2\<close> the plus sign does not lead, and the code
  keeps it.
\<close>

theorem normalizePhone_inner_plus_counterexample:
  "normalizePhone ''1+2'' = ''1+2'' \<and> normalizeLeadingPlus ''1+2'' = ''12'' \<and>
   normalizePhone ''1+2'' \<noteq> normalizeLeadingPlus ''1+2''"
  by (simp add: normalizePhone_def notDigitOrPlus_def normalizeLeadingPlus_def isDigit_def)

section \<open>The access check, blank input and exceptions\<close>

lemma trim_Nil: "trim [] = []"
  by (simp add: trim_def)

lemma char_of_eq_iff: "char_of (n :: nat) = c \<longleftrightarrow> n mod 256 = of_char c"
proof -
  have "char_of n = c \<longleftrightarrow> (of_char (char_of n :: char) :: nat) = of_char c"
    by (simp only: of_char_eq_iff)
  then show ?thesis by simp
qed

lemma eq_char_of_iff: "c = char_of (n :: nat) \<longleftrightarrow> n mod 256 = of_char c"
  using char_of_eq_iff [of n c] by auto

lemma toPropertyKey_exn:
  "toPropertyKey v = Inl e \<Longrightarrow> e = TypeError"
  "joinElements vs = Inl e \<Longrightarrow> e = TypeError"
  by (induction v and vs arbitrary: e and e rule: toPropertyKey_joinElements.induct)
    (auto split: if_splits sum.splits)

lemma logError_cases:
  "logError entry e w = (Inr (), consoleError (entry e) w) \<or> logError entry e w = (Inl TypeError, w)"
proof (cases e)
  case (BridgeError message)
  show ?thesis
  proof (cases "toPropertyKey message")
    case (Inl e')
    with toPropertyKey_exn(1) [OF Inl] BridgeError show ?thesis
      by (simp add: logError_def)
  next
    case (Inr s)
    with BridgeError show ?thesis by (simp add: logError_def)
  qed
next
  case TypeError
  then show ?thesis by (simp add: logError_def)
next
  case (Thrown v)
  show ?thesis
  proof (cases "toPropertyKey v")
    case (Inl e')
    with toPropertyKey_exn(1) [OF Inl] Thrown show ?thesis
      by (simp add: logError_def)
  next
    case (Inr s)
    with Thrown show ?thesis by (simp add: logError_def)
  qed
qed

lemma logError_printable:
  "printable e \<Longrightarrow> logError entry e w = (Inr (), consoleError (entry e) w)"
  by (cases e) (auto simp: logError_def printable_def split: sum.splits)

lemma logError_TypeError [simp]:
  "logError entry TypeError w = (Inr (), consoleError (entry TypeError) w)"
  by (simp add: logError_def)

lemma logError_issued: "issued (snd (logError entry e w)) = issued w"
  using logError_cases [of entry e w] by (auto simp: consoleError_def)

lemma checkContactsAccess_issued:
  "issued (snd (checkContactsAccess b w)) = issued w @ [AccessProbe]"
proof (cases "b (issued w) AccessProbe")
  case (Inl e)
  obtain r w2 where l: "logError CannotAccess e (w\<lparr>issued := issued w @ [AccessProbe]\<rparr>) = (r, w2)"
    by (cases "logError CannotAccess e (w\<lparr>issued := issued w @ [AccessProbe]\<rparr>)")
  with logError_issued [of CannotAccess e "w\<lparr>issued := issued w @ [AccessProbe]\<rparr>"]
  have "issued w2 = issued w @ [AccessProbe]" by simp
  with Inl l show ?thesis
    by (cases r) (simp_all add: checkContactsAccess_def runAppleScript_def)
next
  case (Inr r)
  then show ?thesis by (simp add: checkContactsAccess_def runAppleScript_def)
qed

lemma checkContactsAccess_granted:
  "b (issued w) AccessProbe = Inr a \<Longrightarrow>
   checkContactsAccess b w = (Inr True, w\<lparr>issued := issued w @ [AccessProbe]\<rparr>)"
  by (simp add: checkContactsAccess_def runAppleScript_def)

lemma checkContactsAccess_exn:
  "fst (checkContactsAccess b w) = Inl e \<Longrightarrow> e = TypeError"
proof (cases "b (issued w) AccessProbe")
  case (Inl e')
  assume "fst (checkContactsAccess b w) = Inl e"
  with Inl logError_cases [of CannotAccess e' "w\<lparr>issued := issued w @ [AccessProbe]\<rparr>"]
  show ?thesis
    by (auto simp: checkContactsAccess_def runAppleScript_def)
next
  case (Inr r)
  assume "fst (checkContactsAccess b w) = Inl e"
  with Inr show ?thesis by (simp add: checkContactsAccess_def runAppleScript_def)
qed

lemma handler_issued:
  "issued (snd (case body of
       (Inl e, w1) \<Rightarrow>
         (case logError entry e w1 of
            (Inl e', w2) \<Rightarrow> (Inl e', w2)
          | (Inr u, w2) \<Rightarrow> (Inr d, w2))
     | (Inr r, w1) \<Rightarrow> (Inr r, w1))) = issued (snd body)"
proof (cases body)
  case (Pair r w1)
  show ?thesis
  proof (cases r)
    case (Inl e)
    obtain r2 w2 where l: "logError entry e w1 = (r2, w2)"
      by (cases "logError entry e w1")
    with logError_issued [of entry e w1] have "issued w2 = issued w1" by simp
    with Pair Inl l show ?thesis by (cases r2) simp_all
  next
    case (Inr v)
    with Pair show ?thesis by simp
  qed
qed

lemma getAllNumbers_issued:
  "\<exists>rest. issued (snd (getAllNumbers b w)) = issued w @ AccessProbe # rest"
proof -
  obtain r w1 where check: "checkContactsAccess b w = (r, w1)" by (cases "checkContactsAccess b w")
  with checkContactsAccess_issued [of b w] have w1: "issued w1 = issued w @ [AccessProbe]"
    by simp
  obtain r' w2 where body: "getAllNumbers_body b w = (r', w2)"
    by (cases "getAllNumbers_body b w")
  with check w1 have "\<exists>rest. issued w2 = issued w @ AccessProbe # rest"
    by (auto simp: getAllNumbers_body_def runAppleScript_def
        split: sum.splits bool.splits prod.splits)
  moreover have "issued (snd (getAllNumbers b w)) = issued (snd (getAllNumbers_body b w))"
    unfolding getAllNumbers_def by (rule handler_issued)
  ultimately show ?thesis using body by simp
qed

lemma getAllNumbers_appends:
  "\<exists>rest. issued (snd (getAllNumbers b w)) = issued w @ rest"
  using getAllNumbers_issued [of b w] by auto

lemma findNumber_issued:
  "\<exists>rest. issued (snd (findNumber b name w)) = issued w @ AccessProbe # rest"
proof -
  obtain r w1 where check: "checkContactsAccess b w = (r, w1)" by (cases "checkContactsAccess b w")
  with checkContactsAccess_issued [of b w] have w1: "issued w1 = issued w @ [AccessProbe]"
    by simp
  obtain r' w2 where body: "findNumber_body b name w = (r', w2)"
    by (cases "findNumber_body b name w")
  with check w1
    getAllNumbers_appends [of b "w1\<lparr>issued := issued w1 @ [NameScript (toLowerCase name)]\<rparr>"]
  have "\<exists>rest. issued w2 = issued w @ AccessProbe # rest"
    by (auto simp: findNumber_body_def runAppleScript_def Let_def
        split: sum.splits bool.splits prod.splits option.splits if_splits)
  moreover have "issued (snd (findNumber b name w)) = issued (snd (findNumber_body b name w))"
    unfolding findNumber_def by (rule handler_issued)
  ultimately show ?thesis using body by simp
qed

lemma findContactByPhone_issued:
  "\<exists>rest. issued (snd (findContactByPhone b phoneNumber w)) = issued w @ AccessProbe # rest"
proof -
  obtain r w1 where check: "checkContactsAccess b w = (r, w1)" by (cases "checkContactsAccess b w")
  with checkContactsAccess_issued [of b w] have w1: "issued w1 = issued w @ [AccessProbe]"
    by simp
  obtain r' w2 where body: "findContactByPhone_body b phoneNumber w = (r', w2)"
    by (cases "findContactByPhone_body b phoneNumber w")
  with check w1
    getAllNumbers_appends
      [of b "w1\<lparr>issued := issued w1 @ [PhoneScript (normalizePhone phoneNumber)]\<rparr>"]
  have "\<exists>rest. issued w2 = issued w @ AccessProbe # rest"
    by (auto simp: findContactByPhone_body_def runAppleScript_def Let_def
        split: sum.splits bool.splits prod.splits option.splits if_splits)
  moreover have "issued (snd (findContactByPhone b phoneNumber w)) = issued (snd (findContactByPhone_body b phoneNumber w))"
    unfolding findContactByPhone_def by (rule handler_issued)
  ultimately show ?thesis using body by simp
qed

lemma getAllNumbers_denied:
  "fst (checkContactsAccess b w) = Inr False \<Longrightarrow>
   getAllNumbers b w = (Inr [], snd (checkContactsAccess b w))"
  by (cases "checkContactsAccess b w") (simp add: getAllNumbers_def getAllNumbers_body_def)

lemma findNumber_denied:
  "fst (checkContactsAccess b w) = Inr False \<Longrightarrow>
   findNumber b name w = (Inr (JArr []), snd (checkContactsAccess b w))"
  by (cases "checkContactsAccess b w") (simp add: findNumber_def findNumber_body_def)

lemma findContactByPhone_denied:
  "fst (checkContactsAccess b w) = Inr False \<Longrightarrow>
   findContactByPhone b phoneNumber w = (Inr None, snd (checkContactsAccess b w))"
  by (cases "checkContactsAccess b w")
    (simp add: findContactByPhone_def findContactByPhone_body_def)

text \<open>
  Claim C7. In each of the three operations the first script issued is the access
  probe. When the access check returns false, the operation returns its empty value
  (the empty mapping, the empty list, null) as a value, not as an exception, and leaves
  the world as the access check left it: the probe is the only script issued.
\<close>

theorem access_check_first_and_short_circuit:
  "(\<exists>rest. issued (snd (getAllNumbers b w)) = issued w @ AccessProbe # rest) \<and>
   (\<exists>rest. issued (snd (findNumber b name w)) = issued w @ AccessProbe # rest) \<and>
   (\<exists>rest. issued (snd (findContactByPhone b phoneNumber w)) = issued w @ AccessProbe # rest) \<and>
   (fst (checkContactsAccess b w) = Inr False \<longrightarrow>
      getAllNumbers b w = (Inr [], snd (checkContactsAccess b w)) \<and>
      findNumber b name w = (Inr (JArr []), snd (checkContactsAccess b w)) \<and>
      findContactByPhone b phoneNumber w = (Inr None, snd (checkContactsAccess b w)) \<and>
      issued (snd (checkContactsAccess b w)) = issued w @ [AccessProbe])"
  using getAllNumbers_issued [of b w] findNumber_issued [of b name w]
    findContactByPhone_issued [of b phoneNumber w]
  by (simp add: getAllNumbers_denied findNumber_denied findContactByPhone_denied
      checkContactsAccess_issued)

theorem access_check_first_and_short_circuit_witness:
  "fst (checkContactsAccess deniedBridge emptyWorld) = Inr False \<and>
   fst (getAllNumbers deniedBridge emptyWorld) = Inr [] \<and>
   fst (findNumber deniedBridge ''Smith'' emptyWorld) = Inr (JArr []) \<and>
   fst (findContactByPhone deniedBridge ''555-1234'' emptyWorld) = Inr None \<and>
   issued (snd (getAllNumbers deniedBridge emptyWorld)) = [AccessProbe] \<and>
   issued (snd (findNumber deniedBridge ''Smith'' emptyWorld)) = [AccessProbe] \<and>
   issued (snd (findContactByPhone deniedBridge ''555-1234'' emptyWorld)) = [AccessProbe]"
proof -
  have denied: "fst (checkContactsAccess deniedBridge emptyWorld) = Inr False"
    by (simp add: checkContactsAccess_def runAppleScript_def deniedBridge_def logError_def)
  have start: "issued emptyWorld = []"
    by (simp add: emptyWorld_def)
  show ?thesis
    using denied start
      access_check_first_and_short_circuit
        [of deniedBridge emptyWorld "''Smith''" "''555-1234''"]
    by simp
qed


text \<open>
  Every other failure is contained: when each value the bridge throws can be printed,
  the three operations end with a value, and a body that raises gives the empty value.
\<close>

lemma addContacts_exn: "addContacts cs acc = Inl e \<Longrightarrow> e = TypeError"
  by (induction cs arbitrary: acc) (auto split: if_splits sum.splits dest: toPropertyKey_exn(1))

lemma filterPhones_exn: "filterPhones ps = Inl e \<Longrightarrow> e = TypeError"
  by (induction ps arbitrary: e) (auto split: if_splits sum.splits jsval.splits)

lemma normalizeNumbers_exn: "normalizeNumbers ps = Inl e \<Longrightarrow> e = TypeError"
  by (induction ps arbitrary: e) (auto split: sum.splits jsval.splits)

lemma scanContacts_exn: "scanContacts sn es = Inl e \<Longrightarrow> e = TypeError"
  by (induction sn es rule: scanContacts.induct)
    (auto split: sum.splits if_splits dest: normalizeNumbers_exn)

lemma nonBlankResult_exn: "nonBlankResult v = Inl e \<Longrightarrow> e = TypeError"
  by (cases v) (auto split: if_splits)

lemma getAllNumbers_body_exn:
  assumes "\<And>h s e. b h s = Inl e \<Longrightarrow> printable e"
    and "fst (getAllNumbers_body b w) = Inl e"
  shows "printable e"
proof -
  have "e = TypeError \<or> (\<exists>h s. b h s = Inl e)"
    using assms(2) checkContactsAccess_exn [of b w]
    by (auto simp: getAllNumbers_body_def runAppleScript_def convertContacts_def
        split: prod.splits sum.splits bool.splits dest: addContacts_exn)
  with assms(1) show ?thesis by (auto simp: printable_def)
qed

lemma getAllNumbers_contained:
  assumes "\<And>h s e. b h s = Inl e \<Longrightarrow> printable e"
  shows "\<exists>m. fst (getAllNumbers b w) = Inr m"
proof (cases "getAllNumbers_body b w")
  case (Pair r w1)
  show ?thesis
  proof (cases r)
    case (Inl e)
    have "printable e"
    proof (rule getAllNumbers_body_exn)
      show "\<And>h s e. b h s = Inl e \<Longrightarrow> printable e" by (rule assms)
      show "fst (getAllNumbers_body b w) = Inl e" using Pair Inl by simp
    qed
    with Pair Inl show ?thesis
      by (simp add: getAllNumbers_def logError_printable)
  next
    case (Inr m)
    with Pair show ?thesis by (simp add: getAllNumbers_def)
  qed
qed

lemma findNumber_contained:
  assumes "\<And>h s e. b h s = Inl e \<Longrightarrow> printable e"
  shows "\<exists>r. fst (findNumber b name w) = Inr r"
proof (cases "findNumber_body b name w")
  case (Pair r w1)
  show ?thesis
  proof (cases r)
    case (Inl e)
    have inner: "\<And>w'. \<exists>m. fst (getAllNumbers b w') = Inr m"
      by (rule getAllNumbers_contained) (rule assms)
    have "e = TypeError \<or> (\<exists>h s. b h s = Inl e)"
      using Pair Inl checkContactsAccess_exn [of b w]
        inner [of "(snd (checkContactsAccess b w))\<lparr>issued :=
          issued (snd (checkContactsAccess b w)) @ [NameScript (toLowerCase name)]\<rparr>"]
      by (auto simp: findNumber_body_def runAppleScript_def Let_def
          split: prod.splits sum.splits bool.splits if_splits option.splits
          dest: filterPhones_exn)
    with assms have "printable e" by (auto simp: printable_def)
    with Pair Inl show ?thesis
      by (simp add: findNumber_def logError_printable)
  next
    case (Inr v)
    with Pair show ?thesis by (simp add: findNumber_def)
  qed
qed

lemma findContactByPhone_contained:
  assumes "\<And>h s e. b h s = Inl e \<Longrightarrow> printable e"
  shows "\<exists>r. fst (findContactByPhone b phoneNumber w) = Inr r"
proof (cases "findContactByPhone_body b phoneNumber w")
  case (Pair r w1)
  show ?thesis
  proof (cases r)
    case (Inl e)
    have inner: "\<And>w'. \<exists>m. fst (getAllNumbers b w') = Inr m"
      by (rule getAllNumbers_contained) (rule assms)
    have "e = TypeError \<or> (\<exists>h s. b h s = Inl e)"
      using Pair Inl checkContactsAccess_exn [of b w]
        inner [of "(snd (checkContactsAccess b w))\<lparr>issued :=
          issued (snd (checkContactsAccess b w)) @
            [PhoneScript (normalizePhone phoneNumber)]\<rparr>"]
      by (auto simp: findContactByPhone_body_def runAppleScript_def Let_def
          split: prod.splits sum.splits bool.splits if_splits option.splits
          dest: nonBlankResult_exn scanContacts_exn)
    with assms have "printable e" by (auto simp: printable_def)
    with Pair Inl show ?thesis
      by (simp add: findContactByPhone_def logError_printable)
  next
    case (Inr v)
    with Pair show ?thesis by (simp add: findContactByPhone_def)
  qed
qed

lemma printable_failures_are_contained:
  assumes "\<And>h s e. b h s = Inl e \<Longrightarrow> printable e"
  shows "(\<exists>m. fst (getAllNumbers b w) = Inr m) \<and>
         (\<exists>r. fst (findNumber b name w) = Inr r) \<and>
         (\<exists>r. fst (findContactByPhone b phoneNumber w) = Inr r)"
proof (intro conjI)
  show "\<exists>m. fst (getAllNumbers b w) = Inr m"
    by (rule getAllNumbers_contained) (rule assms)
  show "\<exists>r. fst (findNumber b name w) = Inr r"
    by (rule findNumber_contained) (rule assms)
  show "\<exists>r. fst (findContactByPhone b phoneNumber w) = Inr r"
    by (rule findContactByPhone_contained) (rule assms)
qed

text \<open>An error thrown by the bridge at the main script is printed and swallowed.\<close>

lemma bridge_error_is_contained:
  "getAllNumbers brokenBridge emptyWorld =
     (Inr [], \<lparr>issued = [AccessProbe, BulkScript],
                console = [ErrorGettingAll (BridgeError (JStr ''execution error''))]\<rparr>) \<and>
   findNumber brokenBridge ''Smith'' emptyWorld =
     (Inr (JArr []), \<lparr>issued = [AccessProbe, NameScript ''smith''],
                         console = [ErrorFinding (BridgeError (JStr ''execution error''))]\<rparr>) \<and>
   findContactByPhone brokenBridge ''555-1234'' emptyWorld =
     (Inr None, \<lparr>issued = [AccessProbe, PhoneScript ''5551234''],
                   console = [ErrorFindingByPhone (BridgeError (JStr ''execution error''))]\<rparr>)"
  by (simp add: getAllNumbers_def getAllNumbers_body_def findNumber_def findNumber_body_def
      findContactByPhone_def findContactByPhone_body_def checkContactsAccess_def
      runAppleScript_def logError_def consoleError_def brokenBridge_def emptyWorld_def
      trim_def isWhiteSpace_def toLowerCase_def toLowerChar_def isUpper_def
      char_of_eq_iff normalizePhone_def notDigitOrPlus_def isDigit_def)

lemma findNumber_blank:
  assumes "trim name = []"
  shows "fst (findNumber b name w) = Inr (JArr []) \<and>
         issued (snd (findNumber b name w)) = issued w @ [AccessProbe]"
proof (cases "checkContactsAccess b w")
  case (Pair r w1)
  with checkContactsAccess_issued [of b w] have w1: "issued w1 = issued w @ [AccessProbe]"
    by simp
  show ?thesis
  proof (cases r)
    case (Inl e)
    with Pair checkContactsAccess_exn [of b w e] have "e = TypeError" by simp
    with Pair Inl w1 show ?thesis
      by (simp add: findNumber_def findNumber_body_def consoleError_def)
  next
    case (Inr ok)
    with Pair w1 assms show ?thesis
      by (simp add: findNumber_def findNumber_body_def split: bool.splits)
  qed
qed

lemma findContactByPhone_blank:
  assumes "trim phoneNumber = []"
  shows "fst (findContactByPhone b phoneNumber w) = Inr None \<and>
         issued (snd (findContactByPhone b phoneNumber w)) = issued w @ [AccessProbe]"
proof (cases "checkContactsAccess b w")
  case (Pair r w1)
  with checkContactsAccess_issued [of b w] have w1: "issued w1 = issued w @ [AccessProbe]"
    by simp
  show ?thesis
  proof (cases r)
    case (Inl e)
    with Pair checkContactsAccess_exn [of b w e] have "e = TypeError" by simp
    with Pair Inl w1 show ?thesis
      by (simp add: findContactByPhone_def findContactByPhone_body_def consoleError_def)
  next
    case (Inr ok)
    with Pair w1 assms show ?thesis
      by (simp add: findContactByPhone_def findContactByPhone_body_def split: bool.splits)
  qed
qed

text \<open>
  Claim C4, as amended. On an input that is empty after trimming, \<open>findNumber\<close>
  returns the empty list and \<open>findContactByPhone\<close> returns null, and the only script
  issued is the access probe: the blank test comes after the access check, before the
  targeted query.
\<close>

theorem blank_input_only_probes:
  assumes "trim input = []"
  shows "fst (findNumber b input w) = Inr (JArr []) \<and>
         fst (findContactByPhone b input w) = Inr None \<and>
         issued (snd (findNumber b input w)) = issued w @ [AccessProbe] \<and>
         issued (snd (findContactByPhone b input w)) = issued w @ [AccessProbe]"
  using assms
  by (simp add: findNumber_blank findContactByPhone_blank checkContactsAccess_issued)

theorem blank_input_only_probes_witness:
  "trim '' '' = [] \<and>
   fst (findNumber (cannedBridge (JArr [JStr ''555-1234'']) JNull) '' '' emptyWorld) =
     Inr (JArr []) \<and>
   fst (findContactByPhone (cannedBridge (JStr ''Jane Doe'') JNull) '' '' emptyWorld) =
     Inr None \<and>
   issued (snd (findNumber (cannedBridge (JArr [JStr ''555-1234'']) JNull) '' '' emptyWorld)) =
     [AccessProbe] \<and>
   issued (snd (findContactByPhone (cannedBridge (JStr ''Jane Doe'') JNull) '' '' emptyWorld)) =
     [AccessProbe]"
proof -
  have blank: "trim '' '' = []"
    by (simp add: trim_def isWhiteSpace_def)
  have start: "issued emptyWorld = []"
    by (simp add: emptyWorld_def)
  show ?thesis
    using blank start
      blank_input_only_probes
        [OF blank, of "cannedBridge (JArr [JStr ''555-1234'']) JNull" emptyWorld]
      blank_input_only_probes
        [OF blank, of "cannedBridge (JStr ''Jane Doe'') JNull" emptyWorld]
    by simp
qed

text \<open>
  Claim C4 as stated fails: on blank input both operations have issued a script, the
  access probe, by the time they return.
\<close>

theorem blank_input_probe_counterexample:
  "issued (snd (findNumber (cannedBridge (JArr []) JNull) '''' emptyWorld)) = [AccessProbe] \<and>
   issued (snd (findContactByPhone (cannedBridge (JArr []) JNull) '' '' emptyWorld)) =
     [AccessProbe] \<and>
   issued emptyWorld = []"
  by (simp add: findNumber_def findNumber_body_def findContactByPhone_def
      findContactByPhone_body_def checkContactsAccess_def runAppleScript_def
      cannedBridge_def emptyWorld_def trim_def isWhiteSpace_def)

section \<open>The key order of a snapshot\<close>

lemma digitsValue_snoc:
  "digitsValue (xs @ [c]) acc = 10 * digitsValue xs acc + ((of_char c :: nat) - 48)"
  by (induction xs arbitrary: acc) simp_all

lemma digitsValue_decimal: "digitsValue (decimal n) 0 = n"
proof (induction n rule: decimal.induct)
  case (1 n)
  show ?case
  proof (cases "n < 10")
    case True
    then show ?thesis by (simp add: decimal.simps [of n])
  next
    case False
    with 1 have "digitsValue (decimal (n div 10)) 0 = n div 10" by simp
    moreover have "((48 + n mod 10) mod 256 :: nat) = 48 + n mod 10"
      by (simp add: mod_less)
    ultimately show ?thesis using False
      by (simp add: decimal.simps [of n] digitsValue_snoc)
  qed
qed

lemma indexOfKey_Some_iff:
  "indexOfKey k = Some n \<longleftrightarrow> n < 4294967295 \<and> k = decimal n"
  by (auto simp: indexOfKey_def Let_def digitsValue_decimal)

lemma char_of_48: "char_of (48 :: nat) = CHR ''0''"
proof -
  have "(of_char (char_of (48 :: nat) :: char) :: nat) = of_char CHR ''0''" by simp
  then show ?thesis by (simp only: of_char_eq_iff)
qed

lemma isDigit_iff: "isDigit c \<longleftrightarrow> 48 \<le> (of_char c :: nat) \<and> (of_char c :: nat) \<le> 57"
proof -
  have "isDigit c \<longleftrightarrow> (of_char c :: nat) \<in> of_char ` set ''0123456789''"
    unfolding isDigit_def by (rule inj_image_mem_iff [OF inj_of_char, symmetric])
  also have "\<dots> \<longleftrightarrow> (of_char c :: nat) \<in> {48, 49, 50, 51, 52, 53, 54, 55, 56, 57}"
    by simp
  also have "\<dots> \<longleftrightarrow> 48 \<le> (of_char c :: nat) \<and> (of_char c :: nat) \<le> 57"
    by (simp only: insert_iff empty_iff) arith
  finally show ?thesis .
qed

lemma isDigit_digit: "d < 10 \<Longrightarrow> isDigit (char_of (48 + d :: nat))"
  by (simp add: isDigit_iff mod_less)

lemma decimal_nonempty: "decimal n \<noteq> []"
  by (subst decimal.simps) simp

lemma decimal_digits: "list_all isDigit (decimal n)"
proof (induction n rule: decimal.induct)
  case (1 n)
  then show ?case
    by (subst decimal.simps) (simp add: isDigit_digit)
qed

lemma decimal_zero: "decimal 0 = ''0''"
  by (simp add: decimal.simps [of 0] char_of_48)

lemma hd_decimal: "n \<noteq> 0 \<Longrightarrow> hd (decimal n) \<noteq> CHR ''0''"
proof (induction n rule: decimal.induct)
  case (1 n)
  show ?case
  proof (cases "n < 10")
    case True
    have "hd (decimal n) = char_of (48 + n)"
      using True by (simp add: decimal.simps [of n])
    moreover have "(of_char (char_of (48 + n) :: char) :: nat) \<noteq> of_char CHR ''0''"
      using True "1.prems" by (simp add: mod_less)
    ultimately show ?thesis by (metis)
  next
    case False
    with 1 have "hd (decimal (n div 10)) \<noteq> CHR ''0''" by simp
    with False show ?thesis
      by (simp add: decimal.simps [of n] decimal_nonempty)
  qed
qed

lemma decimal_digitsValue:
  "s \<noteq> [] \<Longrightarrow> list_all isDigit s \<Longrightarrow> s = ''0'' \<or> hd s \<noteq> CHR ''0'' \<Longrightarrow>
   decimal (digitsValue s 0) = s"
proof (induction s rule: rev_induct)
  case Nil
  then show ?case by simp
next
  case (snoc c xs)
  from snoc.prems(2) have c: "isDigit c" and xs: "list_all isDigit xs" by simp_all
  define d where "d = (of_char c :: nat) - 48"
  from c have bounds: "48 \<le> (of_char c :: nat)" "(of_char c :: nat) \<le> 57"
    by (simp_all add: isDigit_iff)
  then have d: "d < 10" and sum: "48 + d = (of_char c :: nat)"
    by (simp_all add: d_def)
  have cd: "char_of (48 + d) = c"
    unfolding sum by simp
  show ?case
  proof (cases "xs = []")
    case True
    with d cd show ?thesis
      by (simp add: decimal.simps [of d] d_def [symmetric])
  next
    case False
    with snoc.prems(3) have lead: "hd xs \<noteq> CHR ''0''" by auto
    with False xs snoc.IH have ih: "decimal (digitsValue xs 0) = xs" by simp
    have "digitsValue xs 0 \<noteq> 0"
    proof
      assume "digitsValue xs 0 = 0"
      with ih have "xs = ''0''" by (simp add: decimal_zero)
      with lead show False by simp
    qed
    then have big: "\<not> 10 * digitsValue xs 0 + d < 10" by simp
    have "decimal (10 * digitsValue xs 0 + d) = decimal (digitsValue xs 0) @ [char_of (48 + d)]"
      using big d by (subst decimal.simps) simp
    with ih cd show ?thesis
      by (simp add: digitsValue_snoc d_def [symmetric])
  qed
qed

lemma isArrayIndex_indexOfKey: "isArrayIndex k \<longleftrightarrow> indexOfKey k \<noteq> None"
proof
  assume "isArrayIndex k"
  then show "indexOfKey k \<noteq> None"
    by (simp add: isArrayIndex_def indexOfKey_def decimal_digitsValue)
next
  assume "indexOfKey k \<noteq> None"
  then obtain n where "indexOfKey k = Some n" by auto
  then have n: "n < 4294967295" and k: "k = decimal n"
    by (simp_all add: indexOfKey_Some_iff)
  show "isArrayIndex k"
  proof (cases "n = 0")
    case True
    with k show ?thesis
      by (simp add: isArrayIndex_def decimal_zero isDigit_def)
  next
    case False
    with n k show ?thesis
      by (simp add: isArrayIndex_def decimal_nonempty decimal_digits hd_decimal
          digitsValue_decimal)
  qed
qed

lemma indexOfKey_value: "isArrayIndex k \<Longrightarrow> indexOfKey k = Some (digitsValue k 0)"
  by (simp add: isArrayIndex_def indexOfKey_def decimal_digitsValue)

lemma insort_key_cong_set:
  "f x = g x \<Longrightarrow> \<forall>y\<in>set ys. f y = g y \<Longrightarrow> insort_key f x ys = insort_key g x ys"
proof (induction ys)
  case Nil
  show ?case by simp
next
  case (Cons y ys)
  from Cons.prems have fy: "f y = g y" and rest: "\<forall>z\<in>set ys. f z = g z" by simp_all
  from Cons.IH [OF Cons.prems(1) rest] have ih: "insort_key f x ys = insort_key g x ys" .
  show ?case
    unfolding insort_key.simps ih Cons.prems(1) fy ..
qed

lemma sort_key_cong_set:
  "\<forall>x\<in>set xs. f x = g x \<Longrightarrow> sort_key f xs = sort_key g xs"
proof (induction xs)
  case Nil
  show ?case by simp
next
  case (Cons x xs)
  from Cons.prems have fx: "f x = g x" and rest: "\<forall>y\<in>set xs. f y = g y" by simp_all
  from Cons.IH [OF rest] have ih: "sort_key f xs = sort_key g xs" .
  from rest have "\<forall>y\<in>set (sort_key g xs). f y = g y" by simp
  with fx have "insort_key f x (sort_key g xs) = insort_key g x (sort_key g xs)"
    by (rule insort_key_cong_set)
  then show ?case
    unfolding sort_key_simps ih .
qed

lemma objectEntries_keyOrder: "objectEntries m = keyOrder m"
proof -
  have filt: "filter (\<lambda>p. isArrayIndex (fst p)) m = filter (\<lambda>e. indexOfKey (fst e) \<noteq> None) m"
    by (simp add: isArrayIndex_indexOfKey)
  have rest: "filter (\<lambda>p. \<not> isArrayIndex (fst p)) m = filter (\<lambda>e. indexOfKey (fst e) = None) m"
    by (simp add: isArrayIndex_indexOfKey)
  have "sort_key (\<lambda>p. digitsValue (fst p) 0) (filter (\<lambda>p. isArrayIndex (fst p)) m) =
        sort_key (\<lambda>e. case indexOfKey (fst e) of Some n \<Rightarrow> n | None \<Rightarrow> 0)
          (filter (\<lambda>p. isArrayIndex (fst p)) m)"
    by (rule sort_key_cong_set) (simp add: indexOfKey_value)
  with filt rest show ?thesis
    by (simp add: objectEntries_def keyOrder_def)
qed

section \<open>The snapshot built by the enumeration\<close>

lemma set_update_subset: "set (AList.update k v al) \<subseteq> insert (k, v) (set al)"
  by (induction al) auto

lemma length_update_le: "length (AList.update k v al) \<le> Suc (length al)"
  by (induction al) auto

lemma set_setProperty: "set (setProperty k v ps) \<subseteq> insert (k, v) (set ps)"
  using set_update_subset [of k v ps] by (auto simp: setProperty_def)

lemma length_setProperty: "length (setProperty k v ps) \<le> Suc (length ps)"
  using length_update_le [of k v ps] by (simp add: setProperty_def)

lemma distinct_setProperty:
  "distinct (map fst ps) \<Longrightarrow> distinct (map fst (setProperty k v ps))"
  by (simp add: setProperty_def distinct_update)



lemma addContacts_distinct:
  "addContacts cs acc = Inr m \<Longrightarrow> distinct (map fst acc) \<Longrightarrow> distinct (map fst m)"
proof (induction cs arbitrary: acc)
  case Nil
  then show ?case by simp
next
  case (Cons c cs)
  show ?case
  proof (cases "hasNameAndPhones c")
    case False
    with Cons show ?thesis by simp
  next
    case True
    with Cons.prems obtain k where
      k: "toPropertyKey (getProp c ''name'') = Inr k"
      and rest: "addContacts cs (setProperty k (phonesValue c) acc) = Inr m"
      by (auto split: sum.splits)
    from Cons.prems(2) have "distinct (map fst (setProperty k (phonesValue c) acc))"
      by (rule distinct_setProperty)
    with rest show ?thesis by (rule Cons.IH)
  qed
qed

lemma convertContacts_distinct: "convertContacts result = Inr m \<Longrightarrow> distinct (map fst m)"
  using addContacts_distinct [of "toArray result" "[]" m] by (simp add: convertContacts_def)







text \<open>A record named \<^verbatim>\<open>__proto__\<close> passes the guard and leaves no entry either.\<close>

lemma proto_name_leaves_no_entry:
  "storedUnder ''__proto__'' (contactRecord ''__proto__'' [''555-1234'']) \<and>
   convertContacts (JArr [contactRecord ''__proto__'' [''555-1234'']]) = Inr []"
  by (simp add: storedUnder_def convertContacts_def contactRecord_def hasNameAndPhones_def
      setProperty_def)

section \<open>What the enumeration script guarantees\<close>

lemma collectPhones_set:
  "set (collectPhones xs acc) = set acc \<union> {v. Gives v \<in> set xs \<and> v \<noteq> []}"
  by (induction xs acc rule: collectPhones.induct) auto

lemma collectPhones_nonempty: "[] \<notin> set (collectPhones xs [])"
  by (simp add: collectPhones_set)

lemma bulkLoop_wellFormed:
  "wellFormed contactList \<Longrightarrow> wellFormed (bulkLoop allPeople contactList contactCount)"
proof (induction allPeople arbitrary: contactList contactCount)
  case Nil
  then show ?case by simp
next
  case (Cons p ps)
  show ?case
  proof (cases "contactCount \<ge> MAX_CONTACTS")
    case True
    with Cons.prems show ?thesis by simp
  next
    case False
    show ?thesis
    proof (cases "nameOf p")
      case Fails
      with False Cons show ?thesis by simp
    next
      case (Gives personName)
      define personPhones where
        "personPhones = (case phonesOf p of Fails \<Rightarrow> [] | Gives l \<Rightarrow> collectPhones l [])"
      have clean: "[] \<notin> set personPhones"
        by (simp add: personPhones_def collectPhones_nonempty split: attempt.splits)
      show ?thesis
      proof (cases "personPhones = []")
        case True
        with False Gives Cons show ?thesis by (simp add: personPhones_def)
      next
        case nonempty: False
        with clean Cons.prems have "wellFormed (contactList @ [(personName, personPhones)])"
          by (simp add: wellFormed_def)
        then have "wellFormed (bulkLoop ps (contactList @ [(personName, personPhones)])
            (contactCount + 1))"
          by (rule Cons.IH)
        with False Gives nonempty show ?thesis by (simp add: personPhones_def)
      qed
    qed
  qed
qed

lemma bulkLoop_length:
  "contactCount = length contactList \<Longrightarrow> length contactList \<le> MAX_CONTACTS \<Longrightarrow>
   length (bulkLoop allPeople contactList contactCount) \<le> MAX_CONTACTS"
proof (induction allPeople arbitrary: contactList contactCount)
  case Nil
  then show ?case by simp
next
  case (Cons p ps)
  show ?case
  proof (cases "contactCount \<ge> MAX_CONTACTS")
    case True
    with Cons.prems show ?thesis by simp
  next
    case False
    with Cons.prems have room: "Suc (length contactList) \<le> MAX_CONTACTS" by simp
    show ?thesis
    proof (cases "nameOf p")
      case Fails
      with False Cons show ?thesis by simp
    next
      case (Gives personName)
      show ?thesis
        using False Gives Cons.prems room
        by (auto simp: Let_def intro!: Cons.IH)
    qed
  qed
qed

lemma bulkScript_wellFormed: "wellFormed (bulkScript allPeople)"
  unfolding bulkScript_def by (rule bulkLoop_wellFormed) (simp add: wellFormed_def)

lemma bulkScript_length: "length (bulkScript allPeople) \<le> MAX_CONTACTS"
  by (simp add: bulkScript_def bulkLoop_length)

section \<open>From the script's result to the snapshot\<close>

lemma marshalsContact_shape:
  assumes "marshalsContact (n, qs) v"
  shows "getProp v ''name'' = JStr n \<and> phonesValue v = map JStr qs"
proof (cases v)
  case (JObj fs)
  with assms obtain pv where
    name: "map_of fs ''name'' = Some (JStr n)"
    and phones: "map_of fs ''phones'' = Some pv"
    and pv: "marshalsPhones qs pv"
    by (auto split: option.splits)
  from pv JObj phones have "phonesValue v = map JStr qs"
    by (cases pv) (simp_all add: phonesValue_def)
  with JObj name show ?thesis
    by simp
qed (use assms in simp_all)

lemma addContacts_marshalled:
  assumes "list_all2 marshalsContact cs vs"
  shows "\<exists>m. addContacts vs acc = Inr m \<and> length m \<le> length acc + length cs \<and>
           set m \<subseteq> set acc \<union> (\<lambda>c. (fst c, map JStr (snd c))) ` set cs"
  using assms
proof (induction cs vs arbitrary: acc rule: list_all2_induct)
  case Nil
  then show ?case by simp
next
  case (Cons c cs v vs)
  obtain n qs where c: "c = (n, qs)" by (cases c)
  from Cons.hyps(1) c have shape: "getProp v ''name'' = JStr n" "phonesValue v = map JStr qs"
    using marshalsContact_shape [of n qs v] by simp_all
  show ?case
  proof (cases "hasNameAndPhones v")
    case False
    from Cons.IH [of acc] obtain m where
      m: "addContacts vs acc = Inr m" "length m \<le> length acc + length cs"
        "set m \<subseteq> set acc \<union> (\<lambda>c. (fst c, map JStr (snd c))) ` set cs"
      by blast
    with False show ?thesis by auto
  next
    case True
    let ?acc = "setProperty n (map JStr qs) acc"
    from Cons.IH [of ?acc] obtain m where
      m: "addContacts vs ?acc = Inr m" "length m \<le> length ?acc + length cs"
        "set m \<subseteq> set ?acc \<union> (\<lambda>c. (fst c, map JStr (snd c))) ` set cs"
      by blast
    from m(2) length_setProperty [of n "map JStr qs" acc]
    have len: "length m \<le> length acc + length (c # cs)" by simp
    from m(3) set_setProperty [of n "map JStr qs" acc] c
    have sub: "set m \<subseteq> set acc \<union> (\<lambda>c. (fst c, map JStr (snd c))) ` set (c # cs)"
      by auto
    from True shape m(1) have "addContacts (v # vs) acc = Inr m" by simp
    with len sub show ?thesis by blast
  qed
qed

lemma marshalsResult_toArray:
  "marshalsResult cs v \<Longrightarrow> list_all2 marshalsContact cs (toArray v)"
  by (cases v) (auto split: list.splits)

lemma convertContacts_marshalled:
  assumes "marshalsResult cs v"
  shows "\<exists>m. convertContacts v = Inr m \<and> length m \<le> length cs \<and>
           set m \<subseteq> (\<lambda>c. (fst c, map JStr (snd c))) ` set cs"
  using addContacts_marshalled [OF marshalsResult_toArray [OF assms], of "[]"]
  by (simp add: convertContacts_def)

lemma getAllNumbers_cases:
  "fst (getAllNumbers b w) = Inr [] \<or> fst (getAllNumbers b w) = Inl TypeError \<or>
   (\<exists>h v. b h BulkScript = Inr v \<and> fst (getAllNumbers b w) = convertContacts v)"
proof (cases "getAllNumbers_body b w")
  case (Pair r w2)
  show ?thesis
  proof (cases r)
    case (Inl e)
    with Pair logError_cases [of ErrorGettingAll e w2] show ?thesis
      by (auto simp: getAllNumbers_def)
  next
    case (Inr m)
    with Pair have result: "fst (getAllNumbers b w) = Inr m"
      by (simp add: getAllNumbers_def)
    from Pair Inr have "m = [] \<or> (\<exists>h v. b h BulkScript = Inr v \<and> convertContacts v = Inr m)"
      by (auto simp: getAllNumbers_body_def runAppleScript_def
          split: prod.splits sum.splits bool.splits)
    then show ?thesis
    proof
      assume "m = []"
      with result show ?thesis by simp
    next
      assume "\<exists>h v. b h BulkScript = Inr v \<and> convertContacts v = Inr m"
      then obtain h v where "b h BulkScript = Inr v" "convertContacts v = Inr m"
        by blast
      with result
      have "\<exists>h v. b h BulkScript = Inr v \<and> fst (getAllNumbers b w) = convertContacts v"
        by (intro exI [of _ h] exI [of _ v]) simp
      then show ?thesis by simp
    qed
  qed
qed

lemma getAllNumbers_from_script:
  assumes "\<And>h v. b h BulkScript = Inr v \<Longrightarrow> marshalsResult (bulkScript allPeople) v"
  shows "(\<exists>m. fst (getAllNumbers b w) = Inr m \<and> length m \<le> length (bulkScript allPeople) \<and>
            set m \<subseteq> (\<lambda>c. (fst c, map JStr (snd c))) ` set (bulkScript allPeople)) \<or>
         fst (getAllNumbers b w) = Inl TypeError"
proof -
  from getAllNumbers_cases [of b w] consider
    "fst (getAllNumbers b w) = Inr []" | "fst (getAllNumbers b w) = Inl TypeError" |
    "\<exists>h v. b h BulkScript = Inr v \<and> fst (getAllNumbers b w) = convertContacts v"
    by blast
  then show ?thesis
  proof cases
    case 1
    then show ?thesis by simp
  next
    case 2
    then show ?thesis by simp
  next
    case 3
    then obtain h v where v: "b h BulkScript = Inr v"
      and eq: "fst (getAllNumbers b w) = convertContacts v"
      by blast
    from convertContacts_marshalled [OF assms [OF v]] eq show ?thesis
      by simp
  qed
qed

lemma length_objectEntries: "length (objectEntries m) = length m"
  by (simp add: objectEntries_def sum_length_filter_compl)

lemma length_objectKeys: "length (objectKeys m) = length m"
  by (simp add: objectKeys_def length_objectEntries)

lemma scriptBridge_marshals:
  "scriptBridge allPeople h BulkScript = Inr v \<Longrightarrow> marshalsResult (bulkScript allPeople) v"
  by (auto simp: scriptBridge_def contactRecord_def list_all2_map2 intro!: list_all2_refl)

text \<open>
  Claim C6. Whatever address book the enumeration script runs against, and however the
  bridge delivers the script's result (as a list of records, as a single record, or
  absent), the mapping returned by \<open>getAllNumbers\<close> has at most \<open>MAX_CONTACTS\<close>
  entries, and \<open>MAX_CONTACTS\<close> is 100. The one case in which no mapping is returned
  is that of a catch handler that cannot print what was thrown.
\<close>

theorem getAllNumbers_at_most_MAX_CONTACTS:
  assumes "\<And>h v. b h BulkScript = Inr v \<Longrightarrow> marshalsResult (bulkScript allPeople) v"
  shows "((\<exists>m. fst (getAllNumbers b w) = Inr m \<and> length (objectKeys m) \<le> MAX_CONTACTS) \<or>
          fst (getAllNumbers b w) = Inl TypeError) \<and>
         MAX_CONTACTS = 100"
proof -
  have "(\<exists>m. fst (getAllNumbers b w) = Inr m \<and> length m \<le> length (bulkScript allPeople) \<and>
          set m \<subseteq> (\<lambda>c. (fst c, map JStr (snd c))) ` set (bulkScript allPeople)) \<or>
        fst (getAllNumbers b w) = Inl TypeError"
    by (rule getAllNumbers_from_script) (rule assms)
  then show ?thesis
  proof
    assume "\<exists>m. fst (getAllNumbers b w) = Inr m \<and> length m \<le> length (bulkScript allPeople) \<and>
          set m \<subseteq> (\<lambda>c. (fst c, map JStr (snd c))) ` set (bulkScript allPeople)"
    then obtain m where
      "fst (getAllNumbers b w) = Inr m" "length m \<le> length (bulkScript allPeople)"
      by blast
    with bulkScript_length [of allPeople] show ?thesis
      by (simp add: length_objectKeys MAX_CONTACTS_def)
  next
    assume "fst (getAllNumbers b w) = Inl TypeError"
    then show ?thesis by (simp add: MAX_CONTACTS_def)
  qed
qed

text \<open>
  Claim C5, as amended. Under the same condition every entry of the mapping returned by
  \<open>getAllNumbers\<close> has a non-empty phone list, and every phone in it is a non-empty
  string. (A phone made of white space only is kept.) The one case in which no mapping
  is returned is that of a catch handler that cannot print what was thrown.
\<close>

theorem getAllNumbers_entries_have_phones:
  assumes "\<And>h v. b h BulkScript = Inr v \<Longrightarrow> marshalsResult (bulkScript allPeople) v"
  shows "(\<exists>m. fst (getAllNumbers b w) = Inr m \<and>
            (\<forall>e\<in>set m. snd e \<noteq> [] \<and> (\<forall>p\<in>set (snd e). \<exists>s. p = JStr s \<and> s \<noteq> []))) \<or>
         fst (getAllNumbers b w) = Inl TypeError"
proof (cases "fst (getAllNumbers b w) = Inl TypeError")
  case True
  then show ?thesis by simp
next
  case False
  have "(\<exists>m. fst (getAllNumbers b w) = Inr m \<and> length m \<le> length (bulkScript allPeople) \<and>
          set m \<subseteq> (\<lambda>c. (fst c, map JStr (snd c))) ` set (bulkScript allPeople)) \<or>
        fst (getAllNumbers b w) = Inl TypeError"
    by (rule getAllNumbers_from_script) (rule assms)
  with False obtain m where
    m: "fst (getAllNumbers b w) = Inr m"
    and sub: "set m \<subseteq> (\<lambda>c. (fst c, map JStr (snd c))) ` set (bulkScript allPeople)"
    by blast
  have "snd e \<noteq> [] \<and> (\<forall>p\<in>set (snd e). \<exists>s. p = JStr s \<and> s \<noteq> [])" if "e \<in> set m" for e
  proof -
    from that sub obtain c where c: "c \<in> set (bulkScript allPeople)"
      and e: "e = (fst c, map JStr (snd c))"
      by blast
    from c bulkScript_wellFormed [of allPeople] have "snd c \<noteq> []" "[] \<notin> set (snd c)"
      by (simp_all add: wellFormed_def)
    with e show ?thesis by auto
  qed
  with m show ?thesis by blast
qed

lemma sampleBook_marshalled:
  "scriptBridge sampleBook h BulkScript = Inr v \<Longrightarrow> marshalsResult (bulkScript sampleBook) v"
  by (auto simp: scriptBridge_def sampleBook_def bulkScript_def MAX_CONTACTS_def
      contactRecord_def)

lemma sampleBook_snapshot:
  "fst (getAllNumbers (scriptBridge sampleBook) emptyWorld) =
   Inr [(''Ann'', [JStr ''555-0100'']), (''Di'', [JStr ''555-0102'', JStr ''555-0103''])]"
  by (simp add: getAllNumbers_def getAllNumbers_body_def checkContactsAccess_def
      runAppleScript_def scriptBridge_def sampleBook_def emptyWorld_def bulkScript_def
      MAX_CONTACTS_def convertContacts_def contactRecord_def hasNameAndPhones_def
      phonesValue_def setProperty_def)

theorem getAllNumbers_at_most_MAX_CONTACTS_witness:
  "fst (getAllNumbers (scriptBridge sampleBook) emptyWorld) =
     Inr [(''Ann'', [JStr ''555-0100'']), (''Di'', [JStr ''555-0102'', JStr ''555-0103''])] \<and>
   length (objectKeys
     [(''Ann'', [JStr ''555-0100'']), (''Di'', [JStr ''555-0102'', JStr ''555-0103''])])
     \<le> MAX_CONTACTS \<and>
   MAX_CONTACTS = 100"
  using sampleBook_snapshot
    getAllNumbers_at_most_MAX_CONTACTS
      [of "scriptBridge sampleBook" sampleBook emptyWorld, OF sampleBook_marshalled]
  by simp

theorem getAllNumbers_entries_have_phones_witness:
  "fst (getAllNumbers (scriptBridge sampleBook) emptyWorld) =
     Inr [(''Ann'', [JStr ''555-0100'']), (''Di'', [JStr ''555-0102'', JStr ''555-0103''])] \<and>
   [JStr ''555-0100''] \<noteq> [] \<and> ''555-0100'' \<noteq> [] \<and>
   [JStr ''555-0102'', JStr ''555-0103''] \<noteq> [] \<and> ''555-0102'' \<noteq> [] \<and> ''555-0103'' \<noteq> []"
  using sampleBook_snapshot
    getAllNumbers_entries_have_phones
      [of "scriptBridge sampleBook" sampleBook emptyWorld, OF sampleBook_marshalled]
  by simp

text \<open>
  Claim C5 as stated fails: the script drops only the empty phone value, so a phone
  that is a single space reaches the mapping.
\<close>

theorem getAllNumbers_blank_phone_counterexample:
  "fst (getAllNumbers (scriptBridge [Person (Gives ''Ann'') (Gives [Gives '' ''])]) emptyWorld) =
     Inr [(''Ann'', [JStr '' ''])] \<and>
   trim '' '' = []"
  by (simp add: getAllNumbers_def getAllNumbers_body_def checkContactsAccess_def
      runAppleScript_def scriptBridge_def emptyWorld_def bulkScript_def MAX_CONTACTS_def
      convertContacts_def contactRecord_def hasNameAndPhones_def phonesValue_def
      setProperty_def trim_def isWhiteSpace_def)

section \<open>The fallback searches\<close>

lemma stringIncludes_sublist: "stringIncludes a b \<longleftrightarrow> sublist b a"
  by (induction a) (simp_all add: sublist_Cons_right)

lemma phoneMatches_rules: "phoneMatches searchNumber num \<longleftrightarrow> matchesSomeRule searchNumber num"
  by (simp add: phoneMatches_def matchesSomeRule_def stringIncludes_sublist)

lemma set_objectEntries: "set (objectEntries m) = set m"
  by (auto simp: objectEntries_def)

lemma getAllNumbers_distinct:
  assumes "getAllNumbers b w = (Inr m, w')"
  shows "distinct (map fst m)"
proof -
  from getAllNumbers_cases [of b w] assms
  have "m = [] \<or> (\<exists>v. convertContacts v = Inr m)" by auto
  then show ?thesis by (auto dest: convertContacts_distinct)
qed

lemma objectEntries_lookup:
  assumes "distinct (map fst m)" and "e \<in> set (objectEntries m)"
  shows "getOwn m (fst e) = JArr (snd e)"
proof -
  from assms(2) have "(fst e, snd e) \<in> set m" by (simp add: set_objectEntries)
  with assms(1) have "map_of m (fst e) = Some (snd e)" by (rule map_of_is_SomeI)
  then show ?thesis by (simp add: getOwn_def)
qed

lemma find_map_fst: "find P (map fst es) = map_option fst (find (\<lambda>e. P (fst e)) es)"
  by (induction es) simp_all

lemma find_Some_mem: "find P xs = Some x \<Longrightarrow> x \<in> set xs \<and> P x"
  by (induction xs) (auto split: if_splits)

lemma findNumber_fallback:
  assumes access: "b (issued w) AccessProbe = Inr a"
    and nonblank: "trim name \<noteq> []"
    and primary: "b (issued w @ [AccessProbe]) (NameScript (toLowerCase name)) = Inr result"
    and none: "toArray result = []"
    and snap: "getAllNumbers b
        (w\<lparr>issued := issued w @ [AccessProbe, NameScript (toLowerCase name)]\<rparr>) =
        (Inr allNumbers, w3)"
  shows "findNumber b name w =
           (Inr (case find (\<lambda>e. sublist (toLowerCase name) (toLowerCase (fst e)))
                        (objectEntries allNumbers) of
                   None \<Rightarrow> JArr []
                 | Some e \<Rightarrow> JArr (snd e)), w3)"
proof -
  let ?P = "\<lambda>k. stringIncludes (toLowerCase k) (toLowerCase name)"
  from nonblank have name: "name \<noteq> []" by (auto simp: trim_Nil)
  have body: "findNumber_body b name w =
      (case find ?P (objectKeys allNumbers) of
         None \<Rightarrow> (Inr (JArr []), w3)
       | Some k \<Rightarrow> if k \<noteq> [] then (Inr (getOwn allNumbers k), w3) else (Inr (JArr []), w3))"
    using access nonblank name primary none snap
    by (simp add: findNumber_body_def checkContactsAccess_granted runAppleScript_def)
  have keys: "find ?P (objectKeys allNumbers) =
      map_option fst (find (\<lambda>e. ?P (fst e)) (objectEntries allNumbers))"
    by (simp add: objectKeys_def find_map_fst)
  show ?thesis
  proof (cases "find (\<lambda>e. ?P (fst e)) (objectEntries allNumbers)")
    case None
    with body keys show ?thesis
      by (simp add: findNumber_def stringIncludes_sublist)
  next
    case (Some e)
    then have mem: "e \<in> set (objectEntries allNumbers)" and hit: "?P (fst e)"
      using find_Some_mem [of "\<lambda>e. ?P (fst e)" "objectEntries allNumbers" e] by simp_all
    from hit name have "fst e \<noteq> []"
      by (auto simp: toLowerCase_def)
    moreover from getAllNumbers_distinct [OF snap] mem
    have "getOwn allNumbers (fst e) = JArr (snd e)"
      by (rule objectEntries_lookup)
    ultimately show ?thesis
      using body keys Some by (simp add: findNumber_def stringIncludes_sublist)
  qed
qed

lemma firstSeen_keys:
  "addContacts cs acc = Inr m \<Longrightarrow>
   map fst m = map fst acc @ firstSeen (set (map fst acc)) (storedKeys cs)"
proof (induction cs arbitrary: acc)
  case Nil
  then show ?case by simp
next
  case (Cons c cs)
  show ?case
  proof (cases "hasNameAndPhones c")
    case False
    with Cons show ?thesis by simp
  next
    case True
    with Cons.prems obtain k where
      k: "toPropertyKey (getProp c ''name'') = Inr k"
      and rest: "addContacts cs (setProperty k (phonesValue c) acc) = Inr m"
      by (auto split: sum.splits)
    note ih = Cons.IH [OF rest]
    show ?thesis
    proof (cases "k = ''__proto__''")
      case proto: True
      with ih True k show ?thesis by (simp add: setProperty_def)
    next
      case False
      show ?thesis
      proof (cases "k \<in> set (map fst acc)")
        case seen: True
        with ih \<open>hasNameAndPhones c\<close> k False show ?thesis
          by (simp add: setProperty_def update_keys)
      next
        case fresh: False
        then have "set (map fst (AList.update k (phonesValue c) acc)) = insert k (set (map fst acc))"
          by (simp add: update_keys)
        with ih \<open>hasNameAndPhones c\<close> k False fresh show ?thesis
          by (simp add: setProperty_def update_keys)
      qed
    qed
  qed
qed

lemma getAllNumbers_keys:
  assumes "getAllNumbers b w = (Inr m, w')"
  shows "m = [] \<or>
         (\<exists>bulk. b (issued w @ [AccessProbe]) BulkScript = Inr bulk \<and>
            map fst m = firstSeen {} (storedKeys (toArray bulk)))"
proof (cases "getAllNumbers_body b w")
  case (Pair r w2)
  show ?thesis
  proof (cases r)
    case (Inl e)
    with Pair assms logError_cases [of ErrorGettingAll e w2] show ?thesis
      by (auto simp: getAllNumbers_def)
  next
    case (Inr m')
    with Pair assms have m': "m' = m" by (simp add: getAllNumbers_def)
    from checkContactsAccess_issued [of b w]
    have "\<And>r w1. checkContactsAccess b w = (r, w1) \<Longrightarrow> issued w1 = issued w @ [AccessProbe]"
      by simp
    with Pair Inr m'
    have "m = [] \<or> (\<exists>bulk. b (issued w @ [AccessProbe]) BulkScript = Inr bulk \<and>
        convertContacts bulk = Inr m)"
      by (auto simp: getAllNumbers_body_def runAppleScript_def
          split: prod.splits sum.splits bool.splits)
    then show ?thesis
    proof
      assume "m = []"
      then show ?thesis by simp
    next
      assume "\<exists>bulk. b (issued w @ [AccessProbe]) BulkScript = Inr bulk \<and>
        convertContacts bulk = Inr m"
      then obtain bulk where bulk: "b (issued w @ [AccessProbe]) BulkScript = Inr bulk"
        and conv: "convertContacts bulk = Inr m"
        by blast
      from conv have "map fst m = firstSeen {} (storedKeys (toArray bulk))"
        using firstSeen_keys [of "toArray bulk" "[]" m] by (simp add: convertContacts_def)
      with bulk show ?thesis by blast
    qed
  qed
qed

text \<open>
  Claim C2, as amended. When access is granted, the name is not blank and the targeted
  query gives no result, \<open>findNumber\<close> returns the phone list of the first entry of the
  snapshot whose lower-cased name contains the lower-cased query, whole and from that
  entry alone, and the empty list when there is no such entry. "First" is in the key
  order of the snapshot: the names that are array indices come first, by ascending
  index, and the other names follow in the order in which the snapshot acquired them,
  which is the order of their first appearance in the result of the bulk enumeration.
\<close>

theorem findNumber_fallback_first_match:
  assumes "b (issued w) AccessProbe = Inr a"
    and "trim name \<noteq> []"
    and "b (issued w @ [AccessProbe]) (NameScript (toLowerCase name)) = Inr result"
    and "toArray result = []"
    and "getAllNumbers b
        (w\<lparr>issued := issued w @ [AccessProbe, NameScript (toLowerCase name)]\<rparr>) =
        (Inr allNumbers, w3)"
  shows "findNumber b name w =
           (Inr (case find (\<lambda>e. sublist (toLowerCase name) (toLowerCase (fst e)))
                        (keyOrder allNumbers) of
                   None \<Rightarrow> JArr []
                 | Some e \<Rightarrow> JArr (snd e)), w3) \<and>
         (allNumbers = [] \<or>
          (\<exists>bulk. b (issued w @ [AccessProbe, NameScript (toLowerCase name), AccessProbe])
                    BulkScript = Inr bulk \<and>
             map fst allNumbers = firstSeen {} (storedKeys (toArray bulk))))"
  using findNumber_fallback [OF assms] getAllNumbers_keys [OF assms(5)]
  by (simp add: objectEntries_keyOrder)

theorem findNumber_fallback_first_match_witness:
  "fst (findNumber
         (cannedBridge (JArr []) (JArr [contactRecord ''John Smith'' [''555-1234'']]))
         ''Smith'' emptyWorld) =
     Inr (JArr [JStr ''555-1234'']) \<and>
   fst (findNumber
         (cannedBridge (JArr []) (JArr [contactRecord ''John Smith'' [''555-1234'']]))
         ''SMITH'' emptyWorld) =
     Inr (JArr [JStr ''555-1234''])"
proof -
  let ?b = "cannedBridge (JArr []) (JArr [contactRecord ''John Smith'' [''555-1234'']])"
  let ?m = "[(''John Smith'', [JStr ''555-1234''])]"
  have lower: "toLowerCase ''Smith'' = ''smith''" "toLowerCase ''SMITH'' = ''smith''"
    by (simp_all add: toLowerCase_def toLowerChar_def isUpper_def char_of_eq_iff)
  let ?w2 = "emptyWorld\<lparr>issued := issued emptyWorld @ [AccessProbe, NameScript ''smith'']\<rparr>"
  have access: "?b (issued emptyWorld) AccessProbe = Inr (JStr ''Contacts'')"
    by (simp add: cannedBridge_def)
  have nonblank: "trim ''Smith'' \<noteq> []" "trim ''SMITH'' \<noteq> []"
    by (simp_all add: trim_def isWhiteSpace_def)
  have primary:
    "?b (issued emptyWorld @ [AccessProbe]) (NameScript (toLowerCase ''Smith'')) = Inr (JArr [])"
    "?b (issued emptyWorld @ [AccessProbe]) (NameScript (toLowerCase ''SMITH'')) = Inr (JArr [])"
    by (simp_all add: cannedBridge_def)
  have none: "toArray (JArr []) = []"
    by simp
  have "fst (getAllNumbers ?b ?w2) = Inr ?m"
    by (simp add: getAllNumbers_def getAllNumbers_body_def checkContactsAccess_def
        runAppleScript_def cannedBridge_def convertContacts_def contactRecord_def
        hasNameAndPhones_def phonesValue_def setProperty_def)
  then have snap: "getAllNumbers ?b ?w2 = (Inr ?m, snd (getAllNumbers ?b ?w2))"
    by (simp add: prod_eq_iff)
  have pick: "find (\<lambda>e. sublist ''smith'' (toLowerCase (fst e))) (keyOrder ?m) =
      Some (''John Smith'', [JStr ''555-1234''])"
    by (simp add: objectEntries_keyOrder [symmetric] objectEntries_def isArrayIndex_def
        isDigit_def toLowerCase_def toLowerChar_def isUpper_def char_of_eq_iff
        eq_char_of_iff stringIncludes_sublist [symmetric])
  from findNumber_fallback_first_match [OF access nonblank(1) primary(1) none]
    findNumber_fallback_first_match [OF access nonblank(2) primary(2) none]
    snap pick
  show ?thesis
    by (simp add: lower)
qed

text \<open>
  Claim C2 as stated fails: the person named \<^verbatim>\<open>12\<close> is enumerated first and matches
  the query \<^verbatim>\<open>1\<close>, yet \<open>findNumber\<close> returns the phones of the person named
  \<^verbatim>\<open>1\<close>, whose key comes first among the keys of the snapshot.
\<close>

theorem findNumber_enumeration_order_counterexample:
  "bulkScript [Person (Gives ''12'') (Gives [Gives ''555-0112'']),
               Person (Gives ''1'') (Gives [Gives ''555-0101''])] =
     [(''12'', [''555-0112'']), (''1'', [''555-0101''])] \<and>
   sublist (toLowerCase ''1'') (toLowerCase ''12'') \<and>
   fst (findNumber
         (scriptBridge [Person (Gives ''12'') (Gives [Gives ''555-0112'']),
                        Person (Gives ''1'') (Gives [Gives ''555-0101''])])
         ''1'' emptyWorld) = Inr (JArr [JStr ''555-0101''])"
  by (simp add: findNumber_def findNumber_body_def getAllNumbers_def getAllNumbers_body_def
      checkContactsAccess_def runAppleScript_def scriptBridge_def emptyWorld_def
      bulkScript_def MAX_CONTACTS_def convertContacts_def contactRecord_def
      hasNameAndPhones_def phonesValue_def setProperty_def objectKeys_def objectEntries_def
      isArrayIndex_def isDigit_def getOwn_def trim_def isWhiteSpace_def toLowerCase_def
      toLowerChar_def isUpper_def Let_def stringIncludes_sublist [symmetric])

lemma filterPhones_nonblank:
  "filterPhones xs = Inr r \<Longrightarrow> \<forall>p\<in>set r. \<exists>s. p = JStr s \<and> trim s \<noteq> []"
proof (induction xs arbitrary: r)
  case Nil
  then show ?case by simp
next
  case (Cons x xs)
  show ?case
  proof (cases "truthy x")
    case False
    with Cons show ?thesis by simp
  next
    case True
    with Cons.prems obtain s r' where x: "x = JStr s" and r': "filterPhones xs = Inr r'"
      and r: "r = (if trim s \<noteq> [] then x # r' else r')"
      by (cases x) (auto split: sum.splits)
    from Cons.IH [OF r'] x r show ?thesis by auto
  qed
qed

text \<open>
  Claim C10. With access granted and a name that is not blank: when the targeted query
  gives results, \<open>findNumber\<close> returns them filtered, so every phone returned is a
  string that is not blank; when it gives none and an entry of the snapshot matches,
  \<open>findNumber\<close> returns the stored phone list of that entry as it is, blank strings
  included.
\<close>

theorem findNumber_filters_direct_results_only:
  assumes access: "b (issued w) AccessProbe = Inr a"
    and nonblank: "trim name \<noteq> []"
    and primary: "b (issued w @ [AccessProbe]) (NameScript (toLowerCase name)) = Inr result"
  shows "(toArray result \<noteq> [] \<and> filterPhones (toArray result) = Inr r \<longrightarrow>
            fst (findNumber b name w) = Inr (JArr r) \<and>
            (\<forall>p\<in>set r. \<exists>s. p = JStr s \<and> trim s \<noteq> [])) \<and>
         (toArray result = [] \<and>
          getAllNumbers b
            (w\<lparr>issued := issued w @ [AccessProbe, NameScript (toLowerCase name)]\<rparr>) =
            (Inr allNumbers, w3) \<and>
          find (\<lambda>e. sublist (toLowerCase name) (toLowerCase (fst e)))
            (objectEntries allNumbers) = Some e \<longrightarrow>
            fst (findNumber b name w) = Inr (JArr (snd e)))"
proof (intro conjI impI)
  assume direct: "toArray result \<noteq> [] \<and> filterPhones (toArray result) = Inr r"
  from nonblank have "name \<noteq> []" by (auto simp: trim_Nil)
  with access nonblank primary direct
  show "fst (findNumber b name w) = Inr (JArr r)"
    by (simp add: findNumber_def findNumber_body_def checkContactsAccess_granted
        runAppleScript_def)
  from direct have "filterPhones (toArray result) = Inr r"
    by simp
  then show "\<forall>p\<in>set r. \<exists>s. p = JStr s \<and> trim s \<noteq> []"
    by (rule filterPhones_nonblank)
next
  assume fb: "toArray result = [] \<and>
      getAllNumbers b
        (w\<lparr>issued := issued w @ [AccessProbe, NameScript (toLowerCase name)]\<rparr>) =
        (Inr allNumbers, w3) \<and>
      find (\<lambda>e. sublist (toLowerCase name) (toLowerCase (fst e)))
        (objectEntries allNumbers) = Some e"
  then have none: "toArray result = []"
    and snap: "getAllNumbers b
        (w\<lparr>issued := issued w @ [AccessProbe, NameScript (toLowerCase name)]\<rparr>) =
        (Inr allNumbers, w3)"
    and pick: "find (\<lambda>e. sublist (toLowerCase name) (toLowerCase (fst e)))
        (objectEntries allNumbers) = Some e"
    by simp_all
  from findNumber_fallback [OF access nonblank primary none snap] pick
  show "fst (findNumber b name w) = Inr (JArr (snd e))"
    by simp
qed

theorem findNumber_filters_direct_results_only_witness:
  "fst (findNumber (cannedBridge (JArr [JStr '' '', JStr ''555-1234'']) JNull)
          ''Smith'' emptyWorld) = Inr (JArr [JStr ''555-1234'']) \<and>
   fst (findNumber
          (scriptBridge [Person (Gives ''John Smith'') (Gives [Gives '' '', Gives ''555-1234''])])
          ''Smith'' emptyWorld) = Inr (JArr [JStr '' '', JStr ''555-1234'']) \<and>
   trim '' '' = []"
proof -
  let ?d = "cannedBridge (JArr [JStr '' '', JStr ''555-1234'']) JNull"
  let ?f = "scriptBridge [Person (Gives ''John Smith'') (Gives [Gives '' '', Gives ''555-1234''])]"
  let ?w2 = "emptyWorld\<lparr>issued := issued emptyWorld @
      [AccessProbe, NameScript (toLowerCase ''Smith'')]\<rparr>"
  let ?m = "[(''John Smith'', [JStr '' '', JStr ''555-1234''])]"
  have blank: "trim '' '' = []"
    by (simp add: trim_def isWhiteSpace_def)
  have nonblank: "trim ''Smith'' \<noteq> []"
    by (simp add: trim_def isWhiteSpace_def)
  have accessD: "?d (issued emptyWorld) AccessProbe = Inr (JStr ''Contacts'')"
    by (simp add: cannedBridge_def)
  have primaryD: "?d (issued emptyWorld @ [AccessProbe]) (NameScript (toLowerCase ''Smith'')) =
      Inr (JArr [JStr '' '', JStr ''555-1234''])"
    by (simp add: cannedBridge_def)
  have direct: "toArray (JArr [JStr '' '', JStr ''555-1234'']) \<noteq> [] \<and>
      filterPhones (toArray (JArr [JStr '' '', JStr ''555-1234''])) = Inr [JStr ''555-1234'']"
    by (simp add: trim_def isWhiteSpace_def)
  have accessF: "?f (issued emptyWorld) AccessProbe = Inr (JStr ''Contacts'')"
    by (simp add: scriptBridge_def)
  have primaryF: "?f (issued emptyWorld @ [AccessProbe]) (NameScript (toLowerCase ''Smith'')) =
      Inr (JArr [])"
    by (simp add: scriptBridge_def)
  have "fst (getAllNumbers ?f ?w2) = Inr ?m"
    by (simp add: getAllNumbers_def getAllNumbers_body_def checkContactsAccess_def
        runAppleScript_def scriptBridge_def bulkScript_def MAX_CONTACTS_def
        convertContacts_def contactRecord_def hasNameAndPhones_def phonesValue_def
        setProperty_def)
  then have snap: "getAllNumbers ?f ?w2 = (Inr ?m, snd (getAllNumbers ?f ?w2))"
    by (simp add: prod_eq_iff)
  have pick: "find (\<lambda>e. sublist (toLowerCase ''Smith'') (toLowerCase (fst e)))
      (objectEntries ?m) = Some (''John Smith'', [JStr '' '', JStr ''555-1234''])"
    by (simp add: objectEntries_def isArrayIndex_def isDigit_def toLowerCase_def
        toLowerChar_def isUpper_def stringIncludes_sublist [symmetric])
  have fallback: "toArray (JArr []) = [] \<and>
      getAllNumbers ?f ?w2 = (Inr ?m, snd (getAllNumbers ?f ?w2)) \<and>
      find (\<lambda>e. sublist (toLowerCase ''Smith'') (toLowerCase (fst e))) (objectEntries ?m) =
        Some (''John Smith'', [JStr '' '', JStr ''555-1234''])"
    using snap pick by simp
  from findNumber_filters_direct_results_only [OF accessD nonblank primaryD,
      of "[JStr ''555-1234'']"] direct
  have one: "fst (findNumber ?d ''Smith'' emptyWorld) = Inr (JArr [JStr ''555-1234''])"
    by blast
  from findNumber_filters_direct_results_only [OF accessF nonblank primaryF,
      of _ ?m "snd (getAllNumbers ?f ?w2)" "(''John Smith'', [JStr '' '', JStr ''555-1234''])"]
    fallback
  have two: "fst (findNumber ?f ''Smith'' emptyWorld) = Inr (JArr [JStr '' '', JStr ''555-1234''])"
    by simp
  from one two blank show ?thesis by simp
qed

lemma normalizeNumbers_text:
  "\<forall>p\<in>set ps. \<exists>s. p = JStr s \<Longrightarrow>
   normalizeNumbers ps = Inr (map normalizePhone (stringsOf ps))"
  by (induction ps) auto

lemma scanContacts_text:
  "textOnly es \<Longrightarrow>
   scanContacts searchNumber es = Inr (map_option fst (find (contactMatches searchNumber) es))"
proof (induction es)
  case Nil
  then show ?case by simp
next
  case (Cons e es)
  obtain contactName numbers where e: "e = (contactName, numbers)" by (cases e)
  from Cons.prems e have numbers: "\<forall>p\<in>set numbers. \<exists>s. p = JStr s" and rest: "textOnly es"
    by (simp_all add: textOnly_def)
  have "list_ex (phoneMatches searchNumber) (map normalizePhone (stringsOf numbers)) \<longleftrightarrow>
      contactMatches searchNumber e"
    by (simp add: e contactMatches_def list_ex_iff phoneMatches_rules)
  with Cons.IH [OF rest] normalizeNumbers_text [OF numbers] e show ?case
    by simp
qed

lemma textOnly_objectEntries: "textOnly (objectEntries m) \<longleftrightarrow> textOnly m"
  by (simp add: textOnly_def set_objectEntries)

lemma nonBlankResult_nothing: "yieldsNothing result \<Longrightarrow> nonBlankResult result = Inr None"
  by (cases result) (auto simp: yieldsNothing_def trim_Nil)

text \<open>
  Claim C1, as amended. When access is granted, the phone number is not blank and the
  targeted query yields nothing, \<open>findContactByPhone\<close> returns the name of the first
  entry of the snapshot that has a phone whose normalised form satisfies one of the six
  rules against the normalised input, and null when no entry has one. "First" is in
  the key order of the snapshot: the names that are array indices come first, by
  ascending index, and the other names follow in the order in which the snapshot
  acquired them, which is the order of their first appearance in the result of the bulk
  enumeration. The phones of the snapshot are strings.
\<close>

theorem findContactByPhone_fallback_first_match:
  assumes access: "b (issued w) AccessProbe = Inr a"
    and nonblank: "trim phoneNumber \<noteq> []"
    and primary: "b (issued w @ [AccessProbe]) (PhoneScript (normalizePhone phoneNumber)) =
        Inr result"
    and empty_handed: "yieldsNothing result"
    and snap: "getAllNumbers b
        (w\<lparr>issued := issued w @ [AccessProbe, PhoneScript (normalizePhone phoneNumber)]\<rparr>) =
        (Inr allContacts, w3)"
    and strings: "textOnly allContacts"
  shows "findContactByPhone b phoneNumber w =
           (Inr (map_option fst
                   (find (contactMatches (normalizePhone phoneNumber))
                      (keyOrder allContacts))), w3) \<and>
         (allContacts = [] \<or>
          (\<exists>bulk. b (issued w @
                      [AccessProbe, PhoneScript (normalizePhone phoneNumber), AccessProbe])
                    BulkScript = Inr bulk \<and>
             map fst allContacts = firstSeen {} (storedKeys (toArray bulk))))"
proof -
  from nonblank have "phoneNumber \<noteq> []" by (auto simp: trim_Nil)
  with access nonblank primary snap nonBlankResult_nothing [OF empty_handed]
  have "findContactByPhone_body b phoneNumber w =
      (scanContacts (normalizePhone phoneNumber) (objectEntries allContacts), w3)"
    by (simp add: findContactByPhone_body_def checkContactsAccess_granted runAppleScript_def)
  moreover from strings have "textOnly (objectEntries allContacts)"
    by (simp add: textOnly_objectEntries)
  ultimately have "findContactByPhone b phoneNumber w =
      (Inr (map_option fst
              (find (contactMatches (normalizePhone phoneNumber))
                 (keyOrder allContacts))), w3)"
    by (simp add: findContactByPhone_def scanContacts_text objectEntries_keyOrder)
  with getAllNumbers_keys [OF snap] show ?thesis
    by simp
qed

theorem findContactByPhone_fallback_first_match_witness:
  "fst (findContactByPhone
         (cannedBridge (JStr []) (JArr [contactRecord ''Jane Doe'' [''+15551234'']]))
         ''555-1234'' emptyWorld) =
   Inr (Some ''Jane Doe'')"
proof -
  let ?b = "cannedBridge (JStr []) (JArr [contactRecord ''Jane Doe'' [''+15551234'']])"
  let ?w2 = "emptyWorld\<lparr>issued := issued emptyWorld @
      [AccessProbe, PhoneScript (normalizePhone ''555-1234'')]\<rparr>"
  let ?m = "[(''Jane Doe'', [JStr ''+15551234''])]"
  have access: "?b (issued emptyWorld) AccessProbe = Inr (JStr ''Contacts'')"
    by (simp add: cannedBridge_def)
  have nonblank: "trim ''555-1234'' \<noteq> []"
    by (simp add: trim_def isWhiteSpace_def)
  have primary: "?b (issued emptyWorld @ [AccessProbe])
      (PhoneScript (normalizePhone ''555-1234'')) = Inr (JStr [])"
    by (simp add: cannedBridge_def)
  have empty_handed: "yieldsNothing (JStr [])"
    by (simp add: yieldsNothing_def)
  have "fst (getAllNumbers ?b ?w2) = Inr ?m"
    by (simp add: getAllNumbers_def getAllNumbers_body_def checkContactsAccess_def
        runAppleScript_def cannedBridge_def convertContacts_def contactRecord_def
        hasNameAndPhones_def phonesValue_def setProperty_def)
  then have snap: "getAllNumbers ?b ?w2 = (Inr ?m, snd (getAllNumbers ?b ?w2))"
    by (simp add: prod_eq_iff)
  have strings: "textOnly ?m"
    by (simp add: textOnly_def)
  have pick: "find (contactMatches (normalizePhone ''555-1234'')) (keyOrder ?m) =
      Some (''Jane Doe'', [JStr ''+15551234''])"
    by (simp add: objectEntries_keyOrder [symmetric] objectEntries_def isArrayIndex_def
        isDigit_def contactMatches_def matchesSomeRule_def normalizePhone_def
        notDigitOrPlus_def)
  from findContactByPhone_fallback_first_match
    [OF access nonblank primary empty_handed snap strings]
  show ?thesis
    unfolding pick by simp
qed

text \<open>
  Claim C1 as stated fails: Zed is enumerated first and has a matching phone, yet
  \<open>findContactByPhone\<close> returns the person named \<^verbatim>\<open>5\<close>, whose key comes first
  among the keys of the snapshot.
\<close>

theorem findContactByPhone_enumeration_order_counterexample:
  "bulkScript [Person (Gives ''Zed'') (Gives [Gives ''(555) 1234'']),
               Person (Gives ''5'') (Gives [Gives ''(555) 1234''])] =
     [(''Zed'', [''(555) 1234'']), (''5'', [''(555) 1234''])] \<and>
   normalizePhone ''5551234'' = ''5551234'' \<and>
   matchesSomeRule ''5551234'' (normalizePhone ''(555) 1234'') \<and>
   fst (findContactByPhone
         (scriptBridge [Person (Gives ''Zed'') (Gives [Gives ''(555) 1234'']),
                        Person (Gives ''5'') (Gives [Gives ''(555) 1234''])])
         ''5551234'' emptyWorld) = Inr (Some ''5'')"
  by (simp add: findContactByPhone_def findContactByPhone_body_def getAllNumbers_def
      getAllNumbers_body_def checkContactsAccess_def runAppleScript_def scriptBridge_def
      emptyWorld_def bulkScript_def MAX_CONTACTS_def convertContacts_def contactRecord_def
      hasNameAndPhones_def phonesValue_def setProperty_def objectEntries_def
      isArrayIndex_def isDigit_def trim_def isWhiteSpace_def normalizePhone_def
      notDigitOrPlus_def phoneMatches_def matchesSomeRule_def Let_def)

end
